theory Spec2Isabelle
  imports Main "HOL-Library.Word" "HOL-Library.AList" "HOL-Library.Sublist"
begin

unbundle bit_operations_syntax

section \<open>Python values, formatted messages and exceptions\<close>

type_synonym byte = "8 word"
type_synonym bytes = "byte list"

text \<open>
  A media record is the sub-dictionary \<open>{sha256, file_type, attributes}\<close> of a link;
  a link adds \<open>link_type\<close> and \<open>mediaid\<close>. The attributes dictionary maps names to
  integer metadata (on which \<open>int(...)\<close> is the identity). Dictionaries are association
  lists in insertion order.
\<close>

record media =
  sha256 :: string
  file_type :: string
  attributes :: "(string \<times> int) list"

record link = media +
  link_type :: string
  mediaid :: int

text \<open>
  An f-string is kept as its parts: literal text, \<open>{x}\<close> and \<open>{x!r}\<close>, so that a
  message of the model is read off the source's f-string directly.
\<close>

datatype pyval = VInt int | VStr string | VBytes bytes | VLinks "(string \<times> link) list"

datatype fpart = Lit string | Fmt pyval | FmtR pyval

type_synonym fstring = "fpart list"

text \<open>
  The exceptions the program can raise. \<open>Exception msg cause\<close> carries the cause of
  \<open>raise ... from e\<close> (\<open>None\<close> for a plain \<open>raise\<close>).
\<close>

datatype error =
    ValueError fstring
  | KeyError pyval
  | Exception fstring "error option"
  | StructError
  | AttributeError
  | UnicodeEncodeError
  | UnicodeDecodeError
  | FileNotFoundError bytes
  | ClientError

section \<open>Constants\<close>

definition YEAR_SECONDS :: int where
  "YEAR_SECONDS = 365 * 24 * 3600"

definition FILE_KEY_LENGTH :: nat where
  "FILE_KEY_LENGTH = 16"

definition CHUNK_SIZE :: nat where
  "CHUNK_SIZE = 8192"

definition IMAGE_MEDIA_TYPES :: "string list" where
  "IMAGE_MEDIA_TYPES = [''image/png'', ''image/jpeg'', ''image/gif'', ''image/webp'']"

definition IMAGE_EXTENSIONS :: "string list" where
  "IMAGE_EXTENSIONS = [''.png'', ''.jpg'', ''.gif'', ''.webp'']"

section \<open>Library functions the program calls\<close>

text \<open>\<open>bytes([x, ...])\<close>: every element must be in \<open>range(256)\<close>.\<close>

definition py_bytes :: "int list \<Rightarrow> error + bytes" where
  "py_bytes xs =
     (if list_all (\<lambda>x. 0 \<le> x \<and> x < 256) xs then Inr (map word_of_int xs)
      else Inl (ValueError [Lit ''bytes must be in range(0, 256)'']))"

text \<open>\<open>struct.pack(">HH", a, b)\<close>: two unsigned 16-bit fields, big-endian.\<close>

definition struct_pack_HH :: "int \<Rightarrow> int \<Rightarrow> error + bytes" where
  "struct_pack_HH a b =
     (if 0 \<le> a \<and> a \<le> 65535 \<and> 0 \<le> b \<and> b \<le> 65535
      then Inr [word_of_int (a div 256), word_of_int (a mod 256),
                word_of_int (b div 256), word_of_int (b mod 256)]
      else Inl StructError)"

text \<open>A \<open>BytesIO\<close> opened for writing is its content; \<open>write\<close> appends.\<close>

definition BytesIO_write :: "bytes \<Rightarrow> bytes \<Rightarrow> bytes" where
  "BytesIO_write f b = f @ b"

section \<open>ImageContentType\<close>

datatype ImageContentType = PNG | JPEG | GIF_STATIC | WEBP_STATIC

fun ct_value :: "ImageContentType \<Rightarrow> int" where
  "ct_value PNG = 1"
| "ct_value JPEG = 2"
| "ct_value GIF_STATIC = 3"
| "ct_value WEBP_STATIC = 4"

definition ImageContentType_serialize_to :: "ImageContentType \<Rightarrow> bytes \<Rightarrow> error + bytes" where
  "ImageContentType_serialize_to ct f =
     (case py_bytes [ct_value ct] of
        Inl e \<Rightarrow> Inl e
      | Inr b \<Rightarrow> Inr (BytesIO_write f b))"

definition media_type :: "ImageContentType \<Rightarrow> string" where
  "media_type ct = IMAGE_MEDIA_TYPES ! nat (ct_value ct - 1)"

definition extension :: "ImageContentType \<Rightarrow> string" where
  "extension ct = IMAGE_EXTENSIONS ! nat (ct_value ct - 1)"

section \<open>ImageRepresentation\<close>

record ImageRepresentation =
  content_type :: ImageContentType
  file_key :: bytes
  width :: int
  height :: int

text \<open>
  \<open>__init__\<close>: the three checks in the source's order, then the four fields are set.
  A raised exception leaves no object behind.
\<close>

definition ImageRepresentation_init ::
  "ImageContentType \<Rightarrow> bytes \<Rightarrow> int \<Rightarrow> int \<Rightarrow> error + ImageRepresentation" where
  "ImageRepresentation_init ct key w h =
     (if \<not> (1 \<le> w \<and> w \<le> 16383)
        then Inl (ValueError [Lit ''Image width out of range: '', Fmt (VInt w)])
      else if \<not> (1 \<le> h \<and> h \<le> 16383)
        then Inl (ValueError [Lit ''Image height out of range: '', Fmt (VInt h)])
      else if length key \<noteq> FILE_KEY_LENGTH
        then Inl (ValueError [Lit ''Invalid file key: '', FmtR (VBytes key)])
      else Inr \<lparr>content_type = ct, file_key = key, width = w, height = h\<rparr>)"

definition ImageRepresentation_serialize_to :: "ImageRepresentation \<Rightarrow> bytes \<Rightarrow> error + bytes" where
  "ImageRepresentation_serialize_to r f =
     (case ImageContentType_serialize_to (content_type r) f of
        Inl e \<Rightarrow> Inl e
      | Inr f1 \<Rightarrow>
          (let f2 = BytesIO_write f1 (file_key r) in
           case struct_pack_HH (width r) (height r) of
             Inl e \<Rightarrow> Inl e
           | Inr b \<Rightarrow> Inr (BytesIO_write f2 b)))"

section \<open>ImageRepresentations\<close>

text \<open>
  An object is its identity together with its (frozen) fields: \<open>x is y\<close> compares the
  identities. A slot holds a reference or \<open>None\<close>.
\<close>

datatype 'a obj = Obj (ident: nat) (deref: 'a)

type_synonym rep_ref = "ImageRepresentation obj option"

definition py_is :: "'a obj option \<Rightarrow> 'a obj option \<Rightarrow> bool" where
  "py_is x y = (map_option ident x = map_option ident y)"

record ImageRepresentations =
  original :: rep_ref
  cover :: rep_ref
  thumbnail_custom :: rep_ref
  thumbnail_generated :: rep_ref
  thumbnail_generated_webp :: rep_ref

definition ImageRepresentations_init ::
  "rep_ref \<Rightarrow> rep_ref \<Rightarrow> rep_ref \<Rightarrow> rep_ref \<Rightarrow> rep_ref \<Rightarrow> ImageRepresentations" where
  "ImageRepresentations_init original0 cover0 thumbnail_custom0 thumbnail_generated0
       thumbnail_generated_webp0 =
     (let cover1 = (if cover0 = None then original0 else cover0);
          thumbnail_generated1 =
            (if thumbnail_generated0 = None then cover1 else thumbnail_generated0)
      in \<lparr>original = original0, cover = cover1, thumbnail_custom = thumbnail_custom0,
          thumbnail_generated = thumbnail_generated1,
          thumbnail_generated_webp = thumbnail_generated_webp0\<rparr>)"

text \<open>The local \<open>included_mask\<close> of \<open>serialize_to\<close>: booleans are the integers 0 and 1.\<close>

definition included_mask :: "ImageRepresentations \<Rightarrow> int" where
  "included_mask self =
     of_bool (\<not> py_is (cover self) (original self))
     OR push_bit 1 (of_bool (\<not> py_is (thumbnail_generated self) (cover self)))
     OR push_bit 2 (of_bool (thumbnail_custom self \<noteq> None))
     OR push_bit 5 (of_bool (thumbnail_generated_webp self \<noteq> None))"

text \<open>\<open>x.serialize_to(f)\<close> on a slot: calling the method on \<open>None\<close> raises.\<close>

definition call_serialize_to :: "rep_ref \<Rightarrow> bytes \<Rightarrow> error + bytes" where
  "call_serialize_to x f =
     (case x of
        None \<Rightarrow> Inl AttributeError
      | Some r \<Rightarrow> ImageRepresentation_serialize_to (deref r) f)"

definition ImageRepresentations_serialize_to :: "ImageRepresentations \<Rightarrow> bytes \<Rightarrow> error + bytes" where
  "ImageRepresentations_serialize_to self f =
     (case py_bytes [included_mask self] of
        Inl e \<Rightarrow> Inl e
      | Inr m \<Rightarrow>
     (case call_serialize_to (original self) (BytesIO_write f m) of
        Inl e \<Rightarrow> Inl e
      | Inr f1 \<Rightarrow>
     (case (if \<not> py_is (cover self) (original self)
            then call_serialize_to (cover self) f1 else Inr f1) of
        Inl e \<Rightarrow> Inl e
      | Inr f2 \<Rightarrow>
     (case (if \<not> py_is (thumbnail_generated self) (cover self)
            then call_serialize_to (thumbnail_generated self) f2 else Inr f2) of
        Inl e \<Rightarrow> Inl e
      | Inr f3 \<Rightarrow>
     (case (if thumbnail_custom self \<noteq> None
            then call_serialize_to (thumbnail_custom self) f3 else Inr f3) of
        Inl e \<Rightarrow> Inl e
      | Inr f4 \<Rightarrow>
          (if thumbnail_generated_webp self \<noteq> None
           then call_serialize_to (thumbnail_generated_webp self) f4 else Inr f4))))))"

text \<open>
  For the statements below: a slot is constructed when it is empty or holds a
  representation that \<open>__init__\<close> accepts, and its written bytes are what its
  \<open>serialize_to\<close> appends to an empty buffer (nothing for an empty slot).
\<close>

definition constructed :: "rep_ref \<Rightarrow> bool" where
  "constructed x =
     (case x of
        None \<Rightarrow> True
      | Some r \<Rightarrow>
          ImageRepresentation_init (content_type (deref r)) (file_key (deref r))
            (width (deref r)) (height (deref r)) = Inr (deref r))"

definition written :: "rep_ref \<Rightarrow> bytes" where
  "written x =
     (case x of
        None \<Rightarrow> []
      | Some r \<Rightarrow>
          (case ImageRepresentation_serialize_to (deref r) [] of
             Inl e \<Rightarrow> []
           | Inr b \<Rightarrow> b))"

section \<open>Text and bytes\<close>

text \<open>
  A \<open>str\<close> is a list of characters; \<open>encode("ascii")\<close> and \<open>decode("ascii")\<close> raise
  on a code above 127.
\<close>

definition encode_ascii :: "string \<Rightarrow> error + bytes" where
  "encode_ascii s =
     (if list_all (\<lambda>c. (of_char c :: nat) < 128) s
      then Inr (map (\<lambda>c. of_nat (of_char c)) s)
      else Inl UnicodeEncodeError)"

definition decode_ascii :: "bytes \<Rightarrow> error + string" where
  "decode_ascii b =
     (if list_all (\<lambda>x. unat x < 128) b
      then Inr (map (\<lambda>x. char_of (unat x)) b)
      else Inl UnicodeDecodeError)"

text \<open>\<open>b.rstrip(chars)\<close>: the trailing bytes that are in \<open>chars\<close> are removed.\<close>

definition rstrip :: "bytes \<Rightarrow> bytes \<Rightarrow> bytes" where
  "rstrip chars b = rev (dropWhile (\<lambda>x. x \<in> set chars) (rev b))"

text \<open>\<open>str(n)\<close> of an integer: its decimal digits, with a minus sign when negative.\<close>

function digits :: "nat \<Rightarrow> string" where
  "digits n =
     (if n < 10 then [char_of (48 + n)]
      else digits (n div 10) @ [char_of (48 + n mod 10)])"
  by pat_completeness auto
termination
  by (relation "measure (\<lambda>n. n)") auto

declare digits.simps [simp del]

definition py_str_int :: "int \<Rightarrow> string" where
  "py_str_int n =
     (if n < 0 then CHR ''-'' # digits (nat (- n)) else digits (nat n))"

section \<open>Base64\<close>

text \<open>
  \<open>base64.b64encode\<close>: three bytes give four characters of the standard alphabet; a
  final group of one or two bytes is padded with \<open>=\<close> (61) to four characters.
\<close>

definition b64_table :: string where
  "b64_table = ''ABCDEFGHIJKLMNOPQRSTUVWXYZabcdefghijklmnopqrstuvwxyz0123456789+/''"

definition b64_char :: "nat \<Rightarrow> byte" where
  "b64_char i = of_nat (of_char (b64_table ! i))"

fun b64encode :: "bytes \<Rightarrow> bytes" where
  "b64encode [] = []"
| "b64encode [a] =
     [b64_char (unat a div 4), b64_char (unat a mod 4 * 16), 61, 61]"
| "b64encode [a, b] =
     [b64_char (unat a div 4), b64_char (unat a mod 4 * 16 + unat b div 16),
      b64_char (unat b mod 16 * 4), 61]"
| "b64encode (a # b # c # s) =
     [b64_char (unat a div 4), b64_char (unat a mod 4 * 16 + unat b div 16),
      b64_char (unat b mod 16 * 4 + unat c div 64), b64_char (unat c mod 64)]
     @ b64encode s"

text \<open>
  \<open>base64.urlsafe_b64encode\<close>: the standard encoding, with \<open>+\<close> (43) translated to
  \<open>-\<close> (45) and \<open>/\<close> (47) to \<open>_\<close> (95).
\<close>

definition urlsafe_encode_translation :: "byte \<Rightarrow> byte" where
  "urlsafe_encode_translation x = (if x = 43 then 45 else if x = 47 then 95 else x)"

definition urlsafe_b64encode :: "bytes \<Rightarrow> bytes" where
  "urlsafe_b64encode s = map urlsafe_encode_translation (b64encode s)"

section \<open>get_bucket_key\<close>

definition get_bucket_key :: "ImageRepresentation \<Rightarrow> error + string" where
  "get_bucket_key rep =
     (case decode_ascii (rstrip [61] (urlsafe_b64encode (file_key rep))) of
        Inl e \<Rightarrow> Inl e
      | Inr base \<Rightarrow> Inr (base @ extension (content_type rep)))"

text \<open>
  The name as the specification words it: the URL-safe Base64 encoding without padding
  (each group of three bytes gives four characters of the URL-safe alphabet, a final
  group of one byte two characters, of two bytes three characters), followed by the
  extension of the content type.
\<close>

definition urlsafe_table :: string where
  "urlsafe_table = ''ABCDEFGHIJKLMNOPQRSTUVWXYZabcdefghijklmnopqrstuvwxyz0123456789-_''"

fun urlsafe_base64_no_padding :: "bytes \<Rightarrow> string" where
  "urlsafe_base64_no_padding [] = []"
| "urlsafe_base64_no_padding [a] =
     [urlsafe_table ! (unat a div 4), urlsafe_table ! (unat a mod 4 * 16)]"
| "urlsafe_base64_no_padding [a, b] =
     [urlsafe_table ! (unat a div 4), urlsafe_table ! (unat a mod 4 * 16 + unat b div 16),
      urlsafe_table ! (unat b mod 16 * 4)]"
| "urlsafe_base64_no_padding (a # b # c # s) =
     [urlsafe_table ! (unat a div 4), urlsafe_table ! (unat a mod 4 * 16 + unat b div 16),
      urlsafe_table ! (unat b mod 16 * 4 + unat c div 64), urlsafe_table ! (unat c mod 64)]
     @ urlsafe_base64_no_padding s"

definition spec_name :: "ImageRepresentation \<Rightarrow> string" where
  "spec_name rep = urlsafe_base64_no_padding (file_key rep) @ extension (content_type rep)"

section \<open>The world around the program\<close>

text \<open>
  What the program reads: the media root, the operating system's random bytes, the
  files under the media root, the two digest functions of \<open>hashlib\<close>, and whether the
  object store refuses a request.
\<close>

record put_request =
  Body :: bytes
  CacheControl :: string
  ContentMD5 :: string
  ContentLength :: int
  ContentType :: string
  Key :: string

record env =
  MEDIA_ROOT :: bytes
  random_byte :: "nat \<Rightarrow> byte"
  file_content :: "bytes \<Rightarrow> bytes option"
  sha256_hexdigest :: "bytes \<Rightarrow> string"
  md5_digest :: "bytes \<Rightarrow> bytes"
  put_object_error :: "put_request \<Rightarrow> error option"

text \<open>
  What the program changes: the random bytes it has consumed, the objects it has
  created (the next identity), and the calls of \<open>bucket.put_object\<close> it has made.
\<close>

record world =
  entropy_used :: nat
  objects_made :: nat
  put_calls :: "put_request list"

record row =
  submitid :: int
  links :: "link list"

text \<open>\<open>secrets.token_bytes(n)\<close>: the next \<open>n\<close> random bytes.\<close>

definition token_bytes :: "env \<Rightarrow> nat \<Rightarrow> world \<Rightarrow> bytes \<times> world" where
  "token_bytes E n s =
     (map (random_byte E) [entropy_used s ..< entropy_used s + n],
      s\<lparr>entropy_used := entropy_used s + n\<rparr>)"

text \<open>\<open>d[k]\<close> on a dictionary: a missing key raises \<open>KeyError(k)\<close>.\<close>

definition subscript :: "('k \<Rightarrow> pyval) \<Rightarrow> ('k \<times> 'v) list \<Rightarrow> 'k \<Rightarrow> error + 'v" where
  "subscript as_val d k =
     (case map_of d k of
        None \<Rightarrow> Inl (KeyError (as_val k))
      | Some v \<Rightarrow> Inr v)"

text \<open>
  \<open>os.path.join\<close> (POSIX): a component that starts with \<open>/\<close> (47) replaces the path
  so far; otherwise it is appended, after a \<open>/\<close> unless the path is empty or ends in one.
\<close>

fun path_join :: "bytes \<Rightarrow> bytes list \<Rightarrow> bytes" where
  "path_join path [] = path"
| "path_join path (b # p) =
     path_join
       (if take 1 b = [47] then b
        else if path = [] \<or> take 1 (rev path) = [47] then path @ b
        else path @ [47] @ b) p"

section \<open>Resolving the links\<close>

definition IMAGE_CONTENT_TYPES :: "(string \<times> ImageContentType) list" where
  "IMAGE_CONTENT_TYPES =
     [(''gif'', GIF_STATIC), (''jpg'', JPEG), (''png'', PNG), (''webp'', WEBP_STATIC)]"

text \<open>
  \<open>rep_from_media\<close>: the keyword arguments are evaluated in order (content type, fresh
  key, width, height); then the object is created, with the next identity, unless
  \<open>__init__\<close> raises.
\<close>

definition rep_from_media ::
  "env \<Rightarrow> media \<Rightarrow> world \<Rightarrow> (error + ImageRepresentation obj) \<times> world" where
  "rep_from_media E m s =
     (case subscript VStr IMAGE_CONTENT_TYPES (file_type m) of
        Inl e \<Rightarrow> (Inl e, s)
      | Inr ct \<Rightarrow>
     (case token_bytes E FILE_KEY_LENGTH s of (key, s1) \<Rightarrow>
     (case subscript VStr (attributes m) ''width'' of
        Inl e \<Rightarrow> (Inl e, s1)
      | Inr w \<Rightarrow>
     (case subscript VStr (attributes m) ''height'' of
        Inl e \<Rightarrow> (Inl e, s1)
      | Inr h \<Rightarrow>
     (case ImageRepresentation_init ct key w h of
        Inl e \<Rightarrow> (Inl e, s1)
      | Inr r \<Rightarrow>
          (Inr (Obj (objects_made s1) r), s1\<lparr>objects_made := Suc (objects_made s1)\<rparr>))))))"

fun lookup_by_loop ::
  "'a list \<Rightarrow> ('a \<Rightarrow> string) \<Rightarrow> (string \<times> 'a) list \<Rightarrow> error + (string \<times> 'a) list" where
  "lookup_by_loop [] key_func result = Inr result"
| "lookup_by_loop (x # xs) key_func result =
     (let key = key_func x in
      if map_of result key \<noteq> None
      then Inl (ValueError [Lit ''Unexpected duplicate key '', FmtR (VStr key)])
      else lookup_by_loop xs key_func (AList.update key x result))"

definition lookup_by :: "'a list \<Rightarrow> ('a \<Rightarrow> string) \<Rightarrow> error + (string \<times> 'a) list" where
  "lookup_by iterable key_func = lookup_by_loop iterable key_func []"

definition subdict :: "('k \<times> 'v) list \<Rightarrow> 'k list \<Rightarrow> ('k \<times> 'v) list" where
  "subdict d keys =
     foldl (\<lambda>acc k. case map_of d k of None \<Rightarrow> acc | Some v \<Rightarrow> AList.update k v acc) [] keys"

text \<open>
  \<open>map_values(func, d)\<close> where \<open>func\<close> has effects: the values are mapped in the
  dictionary's order, and the first exception ends the comprehension.
\<close>

fun map_values_loop ::
  "('v \<Rightarrow> 's \<Rightarrow> (error + 'w) \<times> 's) \<Rightarrow> ('k \<times> 'v) list \<Rightarrow> ('k \<times> 'w) list \<Rightarrow> 's
     \<Rightarrow> (error + ('k \<times> 'w) list) \<times> 's" where
  "map_values_loop func [] result s = (Inr result, s)"
| "map_values_loop func ((k, v) # d) result s =
     (case func v s of
        (Inl e, s1) \<Rightarrow> (Inl e, s1)
      | (Inr w, s1) \<Rightarrow> map_values_loop func d (AList.update k w result) s1)"

definition map_values ::
  "('v \<Rightarrow> 's \<Rightarrow> (error + 'w) \<times> 's) \<Rightarrow> ('k \<times> 'v) list \<Rightarrow> 's
     \<Rightarrow> (error + ('k \<times> 'w) list) \<times> 's" where
  "map_values func d s = map_values_loop func d [] s"

text \<open>The locals \<open>links\<close>, \<open>media_by_mediaid\<close> and \<open>rep_by_mediaid\<close> of \<open>create_reps\<close>.\<close>

definition known_link_types :: "string list" where
  "known_link_types =
     [''submission'', ''cover'', ''thumbnail-custom'', ''thumbnail-generated'',
      ''thumbnail-generated-webp'']"

definition links_of :: "row \<Rightarrow> error + (string \<times> link) list" where
  "links_of r =
     (case lookup_by (links r) link_type of
        Inl e \<Rightarrow> Inl e
      | Inr d \<Rightarrow> Inr (subdict d known_link_types))"

definition media_by_mediaid_of :: "(string \<times> link) list \<Rightarrow> (int \<times> media) list" where
  "media_by_mediaid_of ls =
     foldl (\<lambda>acc l. AList.update (mediaid l) (media.truncate l) acc) [] (map snd ls)"

definition rep_by_mediaid_of ::
  "env \<Rightarrow> (string \<times> link) list \<Rightarrow> world
     \<Rightarrow> (error + (int \<times> ImageRepresentation obj) list) \<times> world" where
  "rep_by_mediaid_of E ls s = map_values (rep_from_media E) (media_by_mediaid_of ls) s"

text \<open>The closure \<open>get_rep\<close>, with the locals it reads as arguments.\<close>

definition get_rep ::
  "(string \<times> link) list \<Rightarrow> (int \<times> ImageRepresentation obj) list \<Rightarrow> string \<Rightarrow> bool
     \<Rightarrow> error + rep_ref" where
  "get_rep ls rep_by_mediaid lt missing_ok =
     (case map_of ls lt of
        None \<Rightarrow>
          (if missing_ok then Inr None
           else Inl (Exception [Lit ''Required key not found in '', FmtR (VLinks ls)]
                       (Some (KeyError (VStr lt)))))
      | Some m \<Rightarrow>
          (case subscript VInt rep_by_mediaid (mediaid m) of
             Inl e \<Rightarrow> Inl e
           | Inr r \<Rightarrow> Inr (Some r)))"

text \<open>
  The call \<open>ImageRepresentations(original=get_rep("submission"), ...)\<close> of
  \<open>create_reps\<close>: its five arguments are evaluated in order.
\<close>

definition build_reps ::
  "(string \<times> link) list \<Rightarrow> (int \<times> ImageRepresentation obj) list \<Rightarrow> error + ImageRepresentations" where
  "build_reps ls rep_by_mediaid =
     (case get_rep ls rep_by_mediaid ''submission'' False of
        Inl e \<Rightarrow> Inl e
      | Inr a \<Rightarrow>
     (case get_rep ls rep_by_mediaid ''cover'' False of
        Inl e \<Rightarrow> Inl e
      | Inr b \<Rightarrow>
     (case get_rep ls rep_by_mediaid ''thumbnail-custom'' True of
        Inl e \<Rightarrow> Inl e
      | Inr c \<Rightarrow>
     (case get_rep ls rep_by_mediaid ''thumbnail-generated'' False of
        Inl e \<Rightarrow> Inl e
      | Inr d \<Rightarrow>
     (case get_rep ls rep_by_mediaid ''thumbnail-generated-webp'' True of
        Inl e \<Rightarrow> Inl e
      | Inr w \<Rightarrow> Inr (ImageRepresentations_init a b c d w))))))"

section \<open>Transferring the files\<close>

text \<open>
  The local \<open>file_path\<close>: the media root joined with three two-character slices of
  the digest and the file name, each encoded before the join.
\<close>

definition file_path_of :: "env \<Rightarrow> media \<Rightarrow> error + bytes" where
  "file_path_of E m =
     (case encode_ascii (take 2 (sha256 m)) of
        Inl e \<Rightarrow> Inl e
      | Inr p1 \<Rightarrow>
     (case encode_ascii (take 2 (drop 2 (sha256 m))) of
        Inl e \<Rightarrow> Inl e
      | Inr p2 \<Rightarrow>
     (case encode_ascii (take 2 (drop 4 (sha256 m))) of
        Inl e \<Rightarrow> Inl e
      | Inr p3 \<Rightarrow>
     (case encode_ascii (sha256 m @ ''.'' @ file_type m) of
        Inl e \<Rightarrow> Inl e
      | Inr p4 \<Rightarrow> Inr (path_join (MEDIA_ROOT E) [p1, p2, p3, p4])))))"

text \<open>
  The reading loop: chunks of \<open>CHUNK_SIZE\<close> bytes until an empty one. A hash object is
  the data it has been fed; its digest is the digest of all of it.
\<close>

function read_chunks :: "bytes \<Rightarrow> bytes \<Rightarrow> bytes \<Rightarrow> int \<Rightarrow> bytes \<times> bytes \<times> int" where
  "read_chunks unread md5_fed sha256_fed content_length =
     (let chunk = take CHUNK_SIZE unread in
      if chunk = [] then (md5_fed, sha256_fed, content_length)
      else read_chunks (drop CHUNK_SIZE unread) (md5_fed @ chunk) (sha256_fed @ chunk)
             (content_length + int (length chunk)))"
  by pat_completeness auto
termination
  by (relation "measure (\<lambda>(unread, _). length unread)") (auto simp: CHUNK_SIZE_def)

declare read_chunks.simps [simp del]

text \<open>\<open>bucket.put_object\<close>: the call is recorded; the store may refuse it.\<close>

definition put_object :: "env \<Rightarrow> put_request \<Rightarrow> world \<Rightarrow> (error + unit) \<times> world" where
  "put_object E req s =
     (let s1 = s\<lparr>put_calls := put_calls s @ [req]\<rparr> in
      case put_object_error E req of
        Some e \<Rightarrow> (Inl e, s1)
      | None \<Rightarrow> (Inr (), s1))"

text \<open>One turn of the upload loop, for the item \<open>(mediaid, rep)\<close>.\<close>

definition upload_rep ::
  "env \<Rightarrow> (int \<times> media) list \<Rightarrow> int \<times> ImageRepresentation obj \<Rightarrow> world
     \<Rightarrow> (error + unit) \<times> world" where
  "upload_rep E media_by_mediaid item s =
     (case subscript VInt media_by_mediaid (fst item) of
        Inl e \<Rightarrow> (Inl e, s)
      | Inr m \<Rightarrow>
     (case file_path_of E m of
        Inl e \<Rightarrow> (Inl e, s)
      | Inr file_path \<Rightarrow>
     (case file_content E file_path of
        None \<Rightarrow> (Inl (FileNotFoundError file_path), s)
      | Some content \<Rightarrow>
     (case read_chunks content [] [] 0 of (md5_fed, sha256_fed, content_length) \<Rightarrow>
      if sha256_hexdigest E sha256_fed \<noteq> sha256 m
      then (Inl (Exception [Lit ''SHA-256 mismatch: got '',
                            FmtR (VStr (sha256_hexdigest E sha256_fed)),
                            Lit '' for '', FmtR (VBytes file_path)] None), s)
      else
     (case decode_ascii (b64encode (md5_digest E md5_fed)) of
        Inl e \<Rightarrow> (Inl e, s)
      | Inr content_md5 \<Rightarrow>
     (case get_bucket_key (deref (snd item)) of
        Inl e \<Rightarrow> (Inl e, s)
      | Inr k \<Rightarrow>
          put_object E
            \<lparr>Body = content,
             CacheControl = ''public, max-age='' @ py_str_int YEAR_SECONDS @ '', immutable'',
             ContentMD5 = content_md5,
             ContentLength = content_length,
             ContentType = media_type (content_type (deref (snd item))),
             Key = k\<rparr> s))))))"

fun upload_all ::
  "env \<Rightarrow> (int \<times> media) list \<Rightarrow> (int \<times> ImageRepresentation obj) list \<Rightarrow> world
     \<Rightarrow> (error + unit) \<times> world" where
  "upload_all E media_by_mediaid [] s = (Inr (), s)"
| "upload_all E media_by_mediaid (item # items) s =
     (case upload_rep E media_by_mediaid item s of
        (Inl e, s1) \<Rightarrow> (Inl e, s1)
      | (Inr u, s1) \<Rightarrow> upload_all E media_by_mediaid items s1)"

section \<open>create_reps\<close>

text \<open>
  The result is the pair \<open>(reps, len(rep_by_mediaid))\<close>; the world is returned beside
  it, also when an exception ends the run.
\<close>

definition create_reps ::
  "env \<Rightarrow> row \<Rightarrow> world \<Rightarrow> (error + ImageRepresentations \<times> int) \<times> world" where
  "create_reps E r s =
     (case links_of r of
        Inl e \<Rightarrow> (Inl e, s)
      | Inr ls \<Rightarrow>
     (case rep_by_mediaid_of E ls s of
        (Inl e, s1) \<Rightarrow> (Inl e, s1)
      | (Inr rep_by_mediaid, s1) \<Rightarrow>
     (case build_reps ls rep_by_mediaid of
        Inl e \<Rightarrow> (Inl e, s1)
      | Inr reps \<Rightarrow>
     (case upload_all E (media_by_mediaid_of ls) rep_by_mediaid s1 of
        (Inl e, s2) \<Rightarrow> (Inl e, s2)
      | (Inr u, s2) \<Rightarrow> (Inr (reps, int (length rep_by_mediaid)), s2)))))"

section \<open>The text of a message\<close>

text \<open>
  \<open>str\<close> and \<open>repr\<close> of the values that messages format, for ASCII text: a string
  or bytes literal is quoted with \<open>'\<close> (with \<open>"\<close> when it holds \<open>'\<close> and no \<open>"\<close>),
  with backslash escapes for the quote, the backslash, tab, newline and carriage return
  and \<open>\x\<close> escapes for the other codes outside 32..126; a dictionary lists its items
  in order. A link's own dictionary is listed in the order of the query that builds it.
\<close>

definition hex_digit :: "nat \<Rightarrow> char" where
  "hex_digit n = ''0123456789abcdef'' ! n"

definition quote_for :: "nat list \<Rightarrow> nat" where
  "quote_for codes = (if 39 \<in> set codes \<and> 34 \<notin> set codes then 34 else 39)"

definition escaped :: "nat \<Rightarrow> nat \<Rightarrow> string" where
  "escaped q n =
     (if n = q \<or> n = 92 then [char_of (92 :: nat), char_of n]
      else if n = 9 then [char_of (92 :: nat), CHR ''t'']
      else if n = 10 then [char_of (92 :: nat), CHR ''n'']
      else if n = 13 then [char_of (92 :: nat), CHR ''r'']
      else if 32 \<le> n \<and> n < 127 then [char_of n]
      else [char_of (92 :: nat), CHR ''x'', hex_digit (n div 16), hex_digit (n mod 16)])"

definition quoted :: "nat list \<Rightarrow> string" where
  "quoted codes =
     (let q = quote_for codes in char_of q # concat (map (escaped q) codes) @ [char_of q])"

definition py_repr_str :: "string \<Rightarrow> string" where
  "py_repr_str s = quoted (map of_char s)"

definition py_repr_bytes :: "bytes \<Rightarrow> string" where
  "py_repr_bytes b = CHR ''b'' # quoted (map unat b)"

fun join :: "string \<Rightarrow> string list \<Rightarrow> string" where
  "join sep [] = []"
| "join sep [x] = x"
| "join sep (x # y # ys) = x @ sep @ join sep (y # ys)"

definition py_repr_dict :: "('k \<Rightarrow> string) \<Rightarrow> ('v \<Rightarrow> string) \<Rightarrow> ('k \<times> 'v) list \<Rightarrow> string" where
  "py_repr_dict repr_key repr_val d =
     ''{'' @ join '', '' (map (\<lambda>(k, v). repr_key k @ '': '' @ repr_val v) d) @ ''}''"

definition py_repr_link :: "link \<Rightarrow> string" where
  "py_repr_link l =
     ''{'' @ join '', ''
       [py_repr_str ''link_type'' @ '': '' @ py_repr_str (link_type l),
        py_repr_str ''mediaid'' @ '': '' @ py_str_int (mediaid l),
        py_repr_str ''sha256'' @ '': '' @ py_repr_str (sha256 l),
        py_repr_str ''file_type'' @ '': '' @ py_repr_str (file_type l),
        py_repr_str ''attributes'' @ '': ''
          @ py_repr_dict py_repr_str py_str_int (attributes l)] @ ''}''"

fun py_repr :: "pyval \<Rightarrow> string" where
  "py_repr (VInt n) = py_str_int n"
| "py_repr (VStr s) = py_repr_str s"
| "py_repr (VBytes b) = py_repr_bytes b"
| "py_repr (VLinks d) = py_repr_dict py_repr_str py_repr_link d"

fun py_str :: "pyval \<Rightarrow> string" where
  "py_str (VStr s) = s"
| "py_str v = py_repr v"

fun render_part :: "fpart \<Rightarrow> string" where
  "render_part (Lit s) = s"
| "render_part (Fmt v) = py_str v"
| "render_part (FmtR v) = py_repr v"

definition render :: "fstring \<Rightarrow> string" where
  "render msg = concat (map render_part msg)"

section \<open>Roles and slots\<close>

text \<open>
  For the statements below: the slot of the set that \<open>create_reps\<close> fills from a link
  type (its keyword arguments), and the object a link type resolves to.
\<close>

definition slot :: "string \<Rightarrow> ImageRepresentations \<Rightarrow> rep_ref" where
  "slot lt reps =
     (if lt = ''submission'' then original reps
      else if lt = ''cover'' then cover reps
      else if lt = ''thumbnail-custom'' then thumbnail_custom reps
      else if lt = ''thumbnail-generated'' then thumbnail_generated reps
      else thumbnail_generated_webp reps)"

definition resolved ::
  "(string \<times> link) list \<Rightarrow> (int \<times> ImageRepresentation obj) list \<Rightarrow> string \<Rightarrow> rep_ref" where
  "resolved ls rep_by_mediaid lt =
     (case map_of ls lt of
        None \<Rightarrow> None
      | Some l \<Rightarrow> map_of rep_by_mediaid (mediaid l))"

section \<open>Inputs on which a run returns\<close>

text \<open>
  For the statements below. The retained links of a row are those of the five known
  types. A media record is buildable when its file type is one of the four known and its
  attributes hold a width and a height in 1..16383; it is transferable when its path can
  be formed, the file exists and the file's digest is the recorded one.
\<close>

definition retained :: "row \<Rightarrow> link list" where
  "retained r = filter (\<lambda>l. link_type l \<in> set known_link_types) (links r)"

definition buildable :: "media \<Rightarrow> bool" where
  "buildable m =
     (map_of IMAGE_CONTENT_TYPES (file_type m) \<noteq> None
      \<and> (case map_of (attributes m) ''width'' of
            None \<Rightarrow> False
          | Some w \<Rightarrow> 1 \<le> w \<and> w \<le> 16383)
      \<and> (case map_of (attributes m) ''height'' of
            None \<Rightarrow> False
          | Some h \<Rightarrow> 1 \<le> h \<and> h \<le> 16383))"

definition transferable :: "env \<Rightarrow> media \<Rightarrow> bool" where
  "transferable E m =
     (case file_path_of E m of
        Inl e \<Rightarrow> False
      | Inr p \<Rightarrow>
          (case file_content E p of
             None \<Rightarrow> False
           | Some content \<Rightarrow> sha256_hexdigest E content = sha256 m))"

definition required_link_types :: "string list" where
  "required_link_types = [''submission'', ''cover'', ''thumbnail-generated'']"

definition resolvable :: "env \<Rightarrow> row \<Rightarrow> bool" where
  "resolvable E r =
     (distinct (map link_type (links r))
      \<and> list_all (\<lambda>lt. lt \<in> link_type ` set (links r)) required_link_types
      \<and> list_all (\<lambda>l. buildable (media.truncate l) \<and> transferable E (media.truncate l))
           (retained r))"

section \<open>Example data\<close>

text \<open>Two representations, an 800 by 600 PNG and a 200 by 150 JPEG, as distinct objects.\<close>

definition ex_A :: "ImageRepresentation obj" where
  "ex_A = Obj 0 \<lparr>content_type = PNG, file_key = replicate 16 1, width = 800, height = 600\<rparr>"

definition ex_B :: "ImageRepresentation obj" where
  "ex_B = Obj 1 \<lparr>content_type = JPEG, file_key = replicate 16 2, width = 200, height = 150\<rparr>"

text \<open>
  A world for the examples: the random source yields the bytes 0, 1, 2, ...; two files
  lie under the media root, with the digests \<open>hashlib\<close> computes for them; the object
  store accepts every request.
\<close>

definition ascii :: "string \<Rightarrow> bytes" where
  "ascii s = map (\<lambda>c. of_nat (of_char c)) s"

definition ex_sha1 :: string where
  "ex_sha1 = ''039058c6f2c0cb492c533b0a4d14ef77cc0f78abccced5287d84a1a2011cfb81''"

definition ex_sha2 :: string where
  "ex_sha2 = ''2fa1b377bf67309f65e5e7bc9d924345ca648dec4e601a398a9cb497dcba3765''"

definition ex_path1 :: bytes where
  "ex_path1 = ascii (''/media/03/90/58/'' @ ex_sha1 @ ''.png'')"

definition ex_path2 :: bytes where
  "ex_path2 = ascii (''/media/2f/a1/b3/'' @ ex_sha2 @ ''.jpg'')"

definition ex_env :: env where
  "ex_env =
     \<lparr>MEDIA_ROOT = ascii ''/media'',
      random_byte = (\<lambda>n. of_nat n),
      file_content =
        map_of [(ex_path1, [1, 2, 3]), (ex_path2, [4, 5])],
      sha256_hexdigest =
        (\<lambda>b. if b = [1, 2, 3] then ex_sha1 else if b = [4, 5] then ex_sha2 else []),
      md5_digest =
        (\<lambda>b. if b = [1, 2, 3]
               then [82, 137, 223, 115, 125, 245, 115, 38, 252, 221, 34, 89, 122, 251, 31, 172]
             else if b = [4, 5]
               then [251, 162, 130, 205, 95, 172, 161, 247, 97, 158, 75, 121, 105, 162, 127, 102]
             else []),
      put_object_error = (\<lambda>req. None)\<rparr>"

definition ex_world :: world where
  "ex_world = \<lparr>entropy_used = 0, objects_made = 0, put_calls = []\<rparr>"

definition ex_link :: "string \<Rightarrow> int \<Rightarrow> string \<Rightarrow> string \<Rightarrow> int \<Rightarrow> int \<Rightarrow> link" where
  "ex_link lt i digest ft w h =
     \<lparr>sha256 = digest, file_type = ft, attributes = [(''width'', w), (''height'', h)],
      link_type = lt, mediaid = i\<rparr>"

text \<open>
  The record of the specification's end-to-end scenario: submission and cover on one
  media item \<open>i\<close> (an 800 by 600 PNG), the generated thumbnail on another item \<open>j\<close>
  (a 200 by 150 JPEG).
\<close>

definition ex_row :: "int \<Rightarrow> int \<Rightarrow> row" where
  "ex_row i j =
     \<lparr>submitid = 1,
      links = [ex_link ''submission'' i ex_sha1 ''png'' 800 600,
               ex_link ''cover'' i ex_sha1 ''png'' 800 600,
               ex_link ''thumbnail-generated'' j ex_sha2 ''jpg'' 200 150]\<rparr>"

definition ex_links :: "int \<Rightarrow> int \<Rightarrow> (string \<times> link) list" where
  "ex_links i j =
     [(''submission'', ex_link ''submission'' i ex_sha1 ''png'' 800 600),
      (''cover'', ex_link ''cover'' i ex_sha1 ''png'' 800 600),
      (''thumbnail-generated'', ex_link ''thumbnail-generated'' j ex_sha2 ''jpg'' 200 150)]"

definition ex_rep1 :: "ImageRepresentation obj" where
  "ex_rep1 = Obj 0 \<lparr>content_type = PNG,
     file_key = [0, 1, 2, 3, 4, 5, 6, 7, 8, 9, 10, 11, 12, 13, 14, 15],
     width = 800, height = 600\<rparr>"

definition ex_rep2 :: "ImageRepresentation obj" where
  "ex_rep2 = Obj 1 \<lparr>content_type = JPEG,
     file_key = [16, 17, 18, 19, 20, 21, 22, 23, 24, 25, 26, 27, 28, 29, 30, 31],
     width = 200, height = 150\<rparr>"

definition ex_reps :: ImageRepresentations where
  "ex_reps = \<lparr>original = Some ex_rep1, cover = Some ex_rep1, thumbnail_custom = None,
     thumbnail_generated = Some ex_rep2, thumbnail_generated_webp = None\<rparr>"

definition ex_put1 :: put_request where
  "ex_put1 =
     \<lparr>Body = [1, 2, 3], CacheControl = ''public, max-age=31536000, immutable'',
      ContentMD5 = ''Uonfc331cyb83SJZevsfrA=='', ContentLength = 3,
      ContentType = ''image/png'', Key = ''AAECAwQFBgcICQoLDA0ODw.png''\<rparr>"

definition ex_put2 :: put_request where
  "ex_put2 =
     \<lparr>Body = [4, 5], CacheControl = ''public, max-age=31536000, immutable'',
      ContentMD5 = ''+6KCzV+sofdhnkt5aaJ/Zg=='', ContentLength = 2,
      ContentType = ''image/jpeg'', Key = ''EBESExQVFhcYGRobHB0eHw.jpg''\<rparr>"

text \<open>The same world with the first file corrupted: it holds the bytes of the second.\<close>

definition ex_env_corrupt :: env where
  "ex_env_corrupt = ex_env\<lparr>file_content := map_of [(ex_path1, [4, 5])]\<rparr>"

text \<open>A record whose three required roles all lie on media item 10.\<close>

definition ex_row_shared :: row where
  "ex_row_shared =
     \<lparr>submitid = 2,
      links = [ex_link ''submission'' 10 ex_sha1 ''png'' 800 600,
               ex_link ''cover'' 10 ex_sha1 ''png'' 800 600,
               ex_link ''thumbnail-generated'' 10 ex_sha1 ''png'' 800 600]\<rparr>"

section \<open>Serialization of one representation\<close>

lemma ImageContentType_serialize_to_eq:
  "ImageContentType_serialize_to ct f = Inr (f @ [word_of_int (ct_value ct)])"
  by (cases ct) (simp_all add: ImageContentType_serialize_to_def py_bytes_def BytesIO_write_def)

lemma be16_value:
  fixes a :: int
  assumes "0 \<le> a" "a \<le> 65535"
  shows "uint (word_of_int (a div 256) :: byte) * 256 + uint (word_of_int (a mod 256) :: byte) = a"
proof -
  have "a div 256 < 256" using assms by simp
  moreover have "0 \<le> a div 256" using assms by simp
  ultimately have "uint (word_of_int (a div 256) :: byte) = a div 256"
    by (simp add: uint_word_of_int take_bit_eq_mod)
  moreover have "uint (word_of_int (a mod 256) :: byte) = a mod 256"
    by (simp add: uint_word_of_int take_bit_eq_mod)
  ultimately show ?thesis by simp
qed

lemma ImageRepresentation_init_Inr:
  "ImageRepresentation_init ct key w h = Inr r \<longleftrightarrow>
     1 \<le> w \<and> w \<le> 16383 \<and> 1 \<le> h \<and> h \<le> 16383 \<and> length key = 16 \<and>
     r = \<lparr>content_type = ct, file_key = key, width = w, height = h\<rparr>"
  by (auto simp: ImageRepresentation_init_def FILE_KEY_LENGTH_def)

lemma ImageRepresentation_serialize_to_eq:
  assumes "0 \<le> width r" "width r \<le> 65535" "0 \<le> height r" "height r \<le> 65535"
  shows "ImageRepresentation_serialize_to r f =
     Inr (f @ [word_of_int (ct_value (content_type r))] @ file_key r
            @ [word_of_int (width r div 256), word_of_int (width r mod 256),
               word_of_int (height r div 256), word_of_int (height r mod 256)])"
  using assms
  by (simp add: ImageRepresentation_serialize_to_def ImageContentType_serialize_to_eq
      struct_pack_HH_def BytesIO_write_def)

text \<open>
  C2 (as amended). A representation built by the constructor serializes to exactly 21
  bytes (1 + 16 + 2 + 2) appended to the buffer: the 1-based ordinal of the content type
  (PNG 1, JPEG 2, GIF_STATIC 3, WEBP_STATIC 4), the 16 key bytes as they are, then width
  and height, each as two bytes whose big-endian reading is the number; nothing
  precedes, separates or follows them.
\<close>

theorem C2_representation_layout:
  assumes "ImageRepresentation_init ct key w h = Inr r"
  shows "ImageRepresentation_serialize_to r f =
           Inr (f @ [case ct of PNG \<Rightarrow> 1 | JPEG \<Rightarrow> 2 | GIF_STATIC \<Rightarrow> 3 | WEBP_STATIC \<Rightarrow> 4]
                  @ key
                  @ [word_of_int (w div 256), word_of_int (w mod 256)]
                  @ [word_of_int (h div 256), word_of_int (h mod 256)])
         \<and> length key = 16
         \<and> uint (word_of_int (w div 256) :: byte) * 256 + uint (word_of_int (w mod 256) :: byte) = w
         \<and> uint (word_of_int (h div 256) :: byte) * 256 + uint (word_of_int (h mod 256) :: byte) = h
         \<and> (\<exists>out. ImageRepresentation_serialize_to r [] = Inr out \<and> length out = 21)"
proof -
  from assms have rng: "1 \<le> w" "w \<le> 16383" "1 \<le> h" "h \<le> 16383" and len: "length key = 16"
    and r: "r = \<lparr>content_type = ct, file_key = key, width = w, height = h\<rparr>"
    by (simp_all add: ImageRepresentation_init_Inr)
  have ord: "(word_of_int (ct_value ct) :: byte) =
      (case ct of PNG \<Rightarrow> 1 | JPEG \<Rightarrow> 2 | GIF_STATIC \<Rightarrow> 3 | WEBP_STATIC \<Rightarrow> 4)"
    by (cases ct) simp_all
  have ser: "ImageRepresentation_serialize_to r g =
           Inr (g @ [case ct of PNG \<Rightarrow> 1 | JPEG \<Rightarrow> 2 | GIF_STATIC \<Rightarrow> 3 | WEBP_STATIC \<Rightarrow> 4]
                  @ key
                  @ [word_of_int (w div 256), word_of_int (w mod 256)]
                  @ [word_of_int (h div 256), word_of_int (h mod 256)])" for g
    using rng by (simp add: ImageRepresentation_serialize_to_eq r ord)
  have bw: "uint (word_of_int (w div 256) :: byte) * 256 + uint (word_of_int (w mod 256) :: byte) = w"
    using rng by (intro be16_value) simp_all
  have bh: "uint (word_of_int (h div 256) :: byte) * 256 + uint (word_of_int (h mod 256) :: byte) = h"
    using rng by (intro be16_value) simp_all
  have "\<exists>out. ImageRepresentation_serialize_to r [] = Inr out \<and> length out = 21"
    using len by (simp add: ser)
  with ser len bw bh show ?thesis by blast
qed

theorem C2_representation_layout_witness:
  "ImageRepresentation_init PNG (replicate 16 7) 800 600
     = Inr \<lparr>content_type = PNG, file_key = replicate 16 7, width = 800, height = 600\<rparr>
   \<and> ImageRepresentation_serialize_to
       \<lparr>content_type = PNG, file_key = replicate 16 7, width = 800, height = 600\<rparr> []
     = Inr ([1] @ replicate 16 7 @ [3, 32] @ [2, 88])"
proof -
  have i: "ImageRepresentation_init PNG (replicate 16 7) 800 600
     = Inr \<lparr>content_type = PNG, file_key = replicate 16 7, width = 800, height = 600\<rparr>"
    by (simp add: ImageRepresentation_init_def FILE_KEY_LENGTH_def)
  show ?thesis using i C2_representation_layout [OF i, of "[]"] by simp
qed

text \<open>
  The claim's count fails: the representation of 800 by 600 pixels with a 16-byte key
  serializes to 21 bytes, not 20.
\<close>

theorem C2_twenty_bytes_counterexample:
  "ImageRepresentation_init PNG (replicate 16 7) 800 600
     = Inr \<lparr>content_type = PNG, file_key = replicate 16 7, width = 800, height = 600\<rparr>
   \<and> map_sum id length (ImageRepresentation_serialize_to
       \<lparr>content_type = PNG, file_key = replicate 16 7, width = 800, height = 600\<rparr> []) = Inr 21
   \<and> (21::nat) \<noteq> 20"
  by (simp add: ImageRepresentation_init_def FILE_KEY_LENGTH_def ImageRepresentation_serialize_to_eq)

text \<open>
  C3. Construction succeeds, with exactly the four fields given, whenever both
  dimensions are in 1..16383 and the key has 16 bytes. Otherwise it raises a ValueError
  and returns no object: the message names the width and its value when the width is
  out of range, else the height and its value when the height is out of range, else
  the file key and its value.
\<close>

theorem C3_construction_validates:
  "(1 \<le> w \<and> w \<le> 16383 \<and> 1 \<le> h \<and> h \<le> 16383 \<and> length key = 16 \<longrightarrow>
      ImageRepresentation_init ct key w h
        = Inr \<lparr>content_type = ct, file_key = key, width = w, height = h\<rparr>)
   \<and> (\<not> (1 \<le> w \<and> w \<le> 16383) \<longrightarrow>
      ImageRepresentation_init ct key w h
        = Inl (ValueError [Lit ''Image width out of range: '', Fmt (VInt w)]))
   \<and> (1 \<le> w \<and> w \<le> 16383 \<and> \<not> (1 \<le> h \<and> h \<le> 16383) \<longrightarrow>
      ImageRepresentation_init ct key w h
        = Inl (ValueError [Lit ''Image height out of range: '', Fmt (VInt h)]))
   \<and> (1 \<le> w \<and> w \<le> 16383 \<and> 1 \<le> h \<and> h \<le> 16383 \<and> length key \<noteq> 16 \<longrightarrow>
      ImageRepresentation_init ct key w h
        = Inl (ValueError [Lit ''Invalid file key: '', FmtR (VBytes key)]))
   \<and> (isl (ImageRepresentation_init ct key w h) \<longleftrightarrow>
        w < 1 \<or> 16383 < w \<or> h < 1 \<or> 16383 < h \<or> length key \<noteq> 16)"
  by (simp add: ImageRepresentation_init_def FILE_KEY_LENGTH_def not_le not_less)

theorem C3_construction_validates_witness:
  "ImageRepresentation_init JPEG (replicate 16 0) 1 16383
     = Inr \<lparr>content_type = JPEG, file_key = replicate 16 0, width = 1, height = 16383\<rparr>
   \<and> ImageRepresentation_init JPEG (replicate 16 0) 0 600
     = Inl (ValueError [Lit ''Image width out of range: '', Fmt (VInt 0)])
   \<and> ImageRepresentation_init JPEG (replicate 16 0) 800 16384
     = Inl (ValueError [Lit ''Image height out of range: '', Fmt (VInt 16384)])
   \<and> ImageRepresentation_init JPEG (replicate 15 0) 800 600
     = Inl (ValueError [Lit ''Invalid file key: '', FmtR (VBytes (replicate 15 0))])"
  using C3_construction_validates [of 1 16383 "replicate 16 0" JPEG]
    C3_construction_validates [of 0 600 "replicate 16 0" JPEG]
    C3_construction_validates [of 800 16384 "replicate 16 0" JPEG]
    C3_construction_validates [of 800 600 "replicate 15 0" JPEG]
  by simp

section \<open>Serialization of a set of representations\<close>

lemma constructed_Some:
  "constructed (Some x) \<longleftrightarrow>
     1 \<le> width (deref x) \<and> width (deref x) \<le> 16383 \<and>
     1 \<le> height (deref x) \<and> height (deref x) \<le> 16383 \<and> length (file_key (deref x)) = 16"
  by (simp add: constructed_def ImageRepresentation_init_Inr)

lemma call_serialize_to_constructed:
  assumes "constructed (Some x)"
  shows "call_serialize_to (Some x) f = Inr (f @ written (Some x))"
    and "length (written (Some x)) = 21"
  using assms
  by (simp_all add: constructed_Some call_serialize_to_def written_def
      ImageRepresentation_serialize_to_eq)

lemma included_mask_sum:
  "included_mask self =
     of_bool (\<not> py_is (cover self) (original self))
     + 2 * of_bool (\<not> py_is (thumbnail_generated self) (cover self))
     + 4 * of_bool (thumbnail_custom self \<noteq> None)
     + 32 * of_bool (thumbnail_generated_webp self \<noteq> None)"
  unfolding included_mask_def
  by (cases "py_is (cover self) (original self)";
      cases "py_is (thumbnail_generated self) (cover self)";
      cases "thumbnail_custom self = None"; cases "thumbnail_generated_webp self = None")
    simp_all

lemma included_mask_range: "0 \<le> included_mask self \<and> included_mask self \<le> 39"
  by (simp add: included_mask_sum)

lemma included_mask_bits:
  "bit (included_mask self) 0 = (\<not> py_is (cover self) (original self))"
  "bit (included_mask self) 1 = (\<not> py_is (thumbnail_generated self) (cover self))"
  "bit (included_mask self) 2 = (thumbnail_custom self \<noteq> None)"
  "bit (included_mask self) 3 = False"
  "bit (included_mask self) 4 = False"
  "bit (included_mask self) 5 = (thumbnail_generated_webp self \<noteq> None)"
  "bit (included_mask self) 6 = False"
  "bit (included_mask self) 7 = False"
  "bit (included_mask self) (Suc 0) = (\<not> py_is (thumbnail_generated self) (cover self))"
  by (simp_all add: included_mask_def bit_simps)

lemma py_bytes_mask: "py_bytes [included_mask self] = Inr [word_of_int (included_mask self)]"
  using included_mask_range [of self] by (simp add: py_bytes_def)

lemma serialize_to_slots:
  assumes "original self = Some a" "cover self = Some c" "thumbnail_generated self = Some g"
    and "constructed (original self)" "constructed (cover self)"
    and "constructed (thumbnail_generated self)" "constructed (thumbnail_custom self)"
    and "constructed (thumbnail_generated_webp self)"
  shows "ImageRepresentations_serialize_to self f =
     Inr (f @ [word_of_int (included_mask self)]
            @ written (original self)
            @ (if \<not> py_is (cover self) (original self) then written (cover self) else [])
            @ (if \<not> py_is (thumbnail_generated self) (cover self)
               then written (thumbnail_generated self) else [])
            @ (if thumbnail_custom self \<noteq> None then written (thumbnail_custom self) else [])
            @ (if thumbnail_generated_webp self \<noteq> None
               then written (thumbnail_generated_webp self) else []))"
proof -
  have tc: "thumbnail_custom self \<noteq> None \<Longrightarrow>
      call_serialize_to (thumbnail_custom self) h = Inr (h @ written (thumbnail_custom self))" for h
    using assms(7) by (auto simp: call_serialize_to_constructed)
  have tw: "thumbnail_generated_webp self \<noteq> None \<Longrightarrow>
      call_serialize_to (thumbnail_generated_webp self) h
        = Inr (h @ written (thumbnail_generated_webp self))" for h
    using assms(8) by (auto simp: call_serialize_to_constructed)
  have o: "call_serialize_to (original self) h = Inr (h @ written (original self))" for h
    using assms(1,4) by (simp add: call_serialize_to_constructed)
  have c: "call_serialize_to (cover self) h = Inr (h @ written (cover self))" for h
    using assms(2,5) by (simp add: call_serialize_to_constructed)
  have g: "call_serialize_to (thumbnail_generated self) h
      = Inr (h @ written (thumbnail_generated self))" for h
    using assms(3,6) by (simp add: call_serialize_to_constructed)
  show ?thesis
    unfolding ImageRepresentations_serialize_to_def py_bytes_mask
    by (simp add: o c g tc tw BytesIO_write_def)
qed
text \<open>
  C1 (as amended). For a set whose original, cover and generated thumbnail are present
  and whose representations were all built by the constructor, \<open>serialize_to\<close> appends
  exactly: one mask byte with bit 0 = cover is not the original object, bit 1 = the
  generated thumbnail is not the cover object, bit 2 = a custom thumbnail is present,
  bits 3 and 4 zero, bit 5 = a generated WebP thumbnail is present; then the bytes of the
  original; then, in this order, those of the cover iff bit 0, of the generated thumbnail
  iff bit 1, of the custom thumbnail iff bit 2 and of the generated WebP thumbnail iff
  bit 5. Each representation takes 21 bytes, so the set with original = cover = A and a
  distinct generated thumbnail B takes 43 bytes, with mask byte 2.
\<close>

theorem C1_set_layout:
  assumes "original self \<noteq> None" "cover self \<noteq> None" "thumbnail_generated self \<noteq> None"
    and "constructed (original self)" "constructed (cover self)"
    and "constructed (thumbnail_generated self)" "constructed (thumbnail_custom self)"
    and "constructed (thumbnail_generated_webp self)"
  shows "(\<exists>m :: byte.
           ImageRepresentations_serialize_to self f =
             Inr (f @ [m]
                    @ written (original self)
                    @ (if bit m 0 then written (cover self) else [])
                    @ (if bit m 1 then written (thumbnail_generated self) else [])
                    @ (if bit m 2 then written (thumbnail_custom self) else [])
                    @ (if bit m 5 then written (thumbnail_generated_webp self) else []))
           \<and> bit m 0 = (\<not> py_is (cover self) (original self))
           \<and> bit m 1 = (\<not> py_is (thumbnail_generated self) (cover self))
           \<and> bit m 2 = (thumbnail_custom self \<noteq> None)
           \<and> \<not> bit m 3 \<and> \<not> bit m 4
           \<and> bit m 5 = (thumbnail_generated_webp self \<noteq> None))
         \<and> length (written (original self)) = 21
         \<and> length (written (cover self)) = 21
         \<and> length (written (thumbnail_generated self)) = 21
         \<and> (thumbnail_custom self \<noteq> None \<longrightarrow> length (written (thumbnail_custom self)) = 21)
         \<and> (thumbnail_generated_webp self \<noteq> None \<longrightarrow>
               length (written (thumbnail_generated_webp self)) = 21)"
proof -
  obtain a c g where s: "original self = Some a" "cover self = Some c"
      "thumbnail_generated self = Some g"
    using assms(1-3) by auto
  let ?m = "word_of_int (included_mask self) :: byte"
  have bits: "bit ?m 0 = (\<not> py_is (cover self) (original self))"
    "bit ?m 1 = (\<not> py_is (thumbnail_generated self) (cover self))"
    "bit ?m 2 = (thumbnail_custom self \<noteq> None)"
    "\<not> bit ?m 3" "\<not> bit ?m 4"
    "bit ?m 5 = (thumbnail_generated_webp self \<noteq> None)"
    by (simp_all add: bit_word_of_int_iff included_mask_bits)
  have "ImageRepresentations_serialize_to self f =
             Inr (f @ [?m]
                    @ written (original self)
                    @ (if bit ?m 0 then written (cover self) else [])
                    @ (if bit ?m 1 then written (thumbnail_generated self) else [])
                    @ (if bit ?m 2 then written (thumbnail_custom self) else [])
                    @ (if bit ?m 5 then written (thumbnail_generated_webp self) else []))"
    unfolding bits by (rule serialize_to_slots [OF s assms(4-8)])
  with bits have first: "\<exists>m :: byte.
           ImageRepresentations_serialize_to self f =
             Inr (f @ [m]
                    @ written (original self)
                    @ (if bit m 0 then written (cover self) else [])
                    @ (if bit m 1 then written (thumbnail_generated self) else [])
                    @ (if bit m 2 then written (thumbnail_custom self) else [])
                    @ (if bit m 5 then written (thumbnail_generated_webp self) else []))
           \<and> bit m 0 = (\<not> py_is (cover self) (original self))
           \<and> bit m 1 = (\<not> py_is (thumbnail_generated self) (cover self))
           \<and> bit m 2 = (thumbnail_custom self \<noteq> None)
           \<and> \<not> bit m 3 \<and> \<not> bit m 4
           \<and> bit m 5 = (thumbnail_generated_webp self \<noteq> None)"
    by blast
  have l1: "length (written (original self)) = 21"
    using assms(4) s(1) by (simp add: call_serialize_to_constructed)
  have l2: "length (written (cover self)) = 21"
    using assms(5) s(2) by (simp add: call_serialize_to_constructed)
  have l3: "length (written (thumbnail_generated self)) = 21"
    using assms(6) s(3) by (simp add: call_serialize_to_constructed)
  have l4: "thumbnail_custom self \<noteq> None \<longrightarrow> length (written (thumbnail_custom self)) = 21"
    using assms(7) by (auto simp: call_serialize_to_constructed)
  have l5: "thumbnail_generated_webp self \<noteq> None \<longrightarrow>
               length (written (thumbnail_generated_webp self)) = 21"
    using assms(8) by (auto simp: call_serialize_to_constructed)
  from first l1 l2 l3 l4 l5 show ?thesis by blast
qed

lemma ex_set_serialized:
  "ImageRepresentations_serialize_to
       (ImageRepresentations_init (Some ex_A) (Some ex_A) None (Some ex_B) None) []
     = Inr ([2] @ [1] @ replicate 16 1 @ [3, 32, 2, 88]
                @ [2] @ replicate 16 2 @ [0, 200, 0, 150])"
  by (simp add: ImageRepresentations_serialize_to_def ImageRepresentations_init_def
        ex_A_def ex_B_def included_mask_def py_is_def py_bytes_def call_serialize_to_def
        ImageRepresentation_serialize_to_eq BytesIO_write_def)

theorem C1_set_layout_witness:
  "ImageRepresentations_serialize_to
       (ImageRepresentations_init (Some ex_A) (Some ex_A) None (Some ex_B) None) []
     = Inr ([2] @ [1] @ replicate 16 1 @ [3, 32, 2, 88]
                @ [2] @ replicate 16 2 @ [0, 200, 0, 150])
   \<and> length (written (Some ex_A)) = 21 \<and> length (written (Some ex_B)) = 21"
proof -
  let ?s = "ImageRepresentations_init (Some ex_A) (Some ex_A) None (Some ex_B) None"
  have p: "original ?s \<noteq> None" "cover ?s \<noteq> None" "thumbnail_generated ?s \<noteq> None"
    by (simp_all add: ImageRepresentations_init_def)
  have cA: "constructed (Some ex_A)" and cB: "constructed (Some ex_B)"
    by (simp_all add: constructed_Some ex_A_def ex_B_def)
  have c: "constructed (original ?s)" "constructed (cover ?s)"
    "constructed (thumbnail_generated ?s)" "constructed (thumbnail_custom ?s)"
    "constructed (thumbnail_generated_webp ?s)"
    using cA cB by (simp_all add: ImageRepresentations_init_def constructed_def)
  have sel: "original ?s = Some ex_A" "thumbnail_generated ?s = Some ex_B"
    by (simp_all add: ImageRepresentations_init_def)
  from C1_set_layout [OF p c, of "[]"]
  have l: "length (written (Some ex_A)) = 21 \<and> length (written (Some ex_B)) = 21"
    unfolding sel by blast
  show ?thesis
    by (rule conjI [OF ex_set_serialized l])
qed

text \<open>
  The claim's byte counts fail on its own example: the output has 43 bytes, not 41
  (its mask byte is 2, as claimed).
\<close>

theorem C1_length_41_counterexample:
  "map_sum id length (ImageRepresentations_serialize_to
       (ImageRepresentations_init (Some ex_A) (Some ex_A) None (Some ex_B) None) []) = Inr 43
   \<and> map_sum id hd (ImageRepresentations_serialize_to
       (ImageRepresentations_init (Some ex_A) (Some ex_A) None (Some ex_B) None) []) = Inr 2
   \<and> (43 :: nat) \<noteq> 41"
  by (simp add: ex_set_serialized)

text \<open>
  C4. The constructor resolves the cover first (an absent cover becomes the original
  reference itself) and the generated thumbnail second (an absent one becomes the
  resolved cover). With both absent the three slots hold the same object and mask bits
  0 and 1 are zero. The custom thumbnail and the generated WebP thumbnail are stored as
  given and stay \<open>None\<close> when absent.
\<close>

theorem C4_defaults:
  "ImageRepresentations_init orig c tc tg tw =
     \<lparr>original = orig,
      cover = (if c = None then orig else c),
      thumbnail_custom = tc,
      thumbnail_generated = (if tg = None then (if c = None then orig else c) else tg),
      thumbnail_generated_webp = tw\<rparr>
   \<and> (c = None \<and> tg = None \<longrightarrow>
        cover (ImageRepresentations_init orig c tc tg tw) = orig
        \<and> thumbnail_generated (ImageRepresentations_init orig c tc tg tw) = orig
        \<and> py_is (cover (ImageRepresentations_init orig c tc tg tw))
                 (original (ImageRepresentations_init orig c tc tg tw))
        \<and> py_is (thumbnail_generated (ImageRepresentations_init orig c tc tg tw))
                 (cover (ImageRepresentations_init orig c tc tg tw))
        \<and> \<not> bit (included_mask (ImageRepresentations_init orig c tc tg tw)) 0
        \<and> \<not> bit (included_mask (ImageRepresentations_init orig c tc tg tw)) 1)
   \<and> thumbnail_custom (ImageRepresentations_init orig None None None None) = None
   \<and> thumbnail_generated_webp (ImageRepresentations_init orig None None None None) = None"
  by (simp add: ImageRepresentations_init_def included_mask_bits py_is_def)

theorem C4_defaults_witness:
  "ImageRepresentations_init (Some ex_A) None None None None =
     \<lparr>original = Some ex_A, cover = Some ex_A, thumbnail_custom = None,
      thumbnail_generated = Some ex_A, thumbnail_generated_webp = None\<rparr>
   \<and> included_mask (ImageRepresentations_init (Some ex_A) None None None None) = 0
   \<and> ImageRepresentations_init (Some ex_A) None None (Some ex_B) None =
     \<lparr>original = Some ex_A, cover = Some ex_A, thumbnail_custom = None,
      thumbnail_generated = Some ex_B, thumbnail_generated_webp = None\<rparr>"
  using C4_defaults [of "Some ex_A" None None None None]
    C4_defaults [of "Some ex_A" None None "Some ex_B" None]
  by (simp add: included_mask_sum py_is_def)

lemma call_serialize_to_appends:
  "call_serialize_to x h = Inr h' \<Longrightarrow> \<exists>t. h' = h @ t"
  by (auto simp: call_serialize_to_def ImageRepresentation_serialize_to_def
      ImageContentType_serialize_to_eq BytesIO_write_def split: option.splits sum.splits)

lemma serialize_to_starts_with_mask:
  assumes "ImageRepresentations_serialize_to self f = Inr out"
  shows "\<exists>t. out = f @ word_of_int (included_mask self) # t"
proof -
  let ?f0 = "f @ [word_of_int (included_mask self)]"
  from assms obtain f1 f2 f3 f4 where
    1: "call_serialize_to (original self) ?f0 = Inr f1" and
    2: "(if \<not> py_is (cover self) (original self)
            then call_serialize_to (cover self) f1 else Inr f1) = Inr f2" and
    3: "(if \<not> py_is (thumbnail_generated self) (cover self)
            then call_serialize_to (thumbnail_generated self) f2 else Inr f2) = Inr f3" and
    4: "(if thumbnail_custom self \<noteq> None
            then call_serialize_to (thumbnail_custom self) f3 else Inr f3) = Inr f4" and
    5: "(if thumbnail_generated_webp self \<noteq> None
           then call_serialize_to (thumbnail_generated_webp self) f4 else Inr f4) = Inr out"
    unfolding ImageRepresentations_serialize_to_def py_bytes_mask
    by (auto simp: BytesIO_write_def split: sum.splits)
  from 1 obtain t1 where "f1 = ?f0 @ t1" by (blast dest: call_serialize_to_appends)
  moreover from 2 obtain t2 where "f2 = f1 @ t2"
    by (cases "py_is (cover self) (original self)") (auto dest: call_serialize_to_appends)
  moreover from 3 obtain t3 where "f3 = f2 @ t3"
    by (cases "py_is (thumbnail_generated self) (cover self)") (auto dest: call_serialize_to_appends)
  moreover from 4 obtain t4 where "f4 = f3 @ t4"
    by (cases "thumbnail_custom self = None") (auto dest: call_serialize_to_appends)
  moreover from 5 obtain t5 where "out = f4 @ t5"
    by (cases "thumbnail_generated_webp self = None") (auto dest: call_serialize_to_appends)
  ultimately show ?thesis by simp
qed

text \<open>
  C10. The mask of every set is one of the 16 values over bits 0, 1, 2 and 5: it is at
  most 39 and its bits 3, 4, 6 and 7 are zero; and whenever \<open>serialize_to\<close> returns,
  the first byte it appended is that mask.
\<close>

theorem C10_mask_bits:
  "included_mask self \<in> set [0, 1, 2, 3, 4, 5, 6, 7, 32, 33, 34, 35, 36, 37, 38, 39]
   \<and> 0 \<le> included_mask self \<and> included_mask self \<le> 39
   \<and> \<not> bit (included_mask self) 3 \<and> \<not> bit (included_mask self) 4
   \<and> \<not> bit (included_mask self) 6 \<and> \<not> bit (included_mask self) 7
   \<and> (ImageRepresentations_serialize_to self f = Inr out \<longrightarrow>
        (\<exists>m t. out = f @ m # t \<and> uint m = included_mask self \<and> uint m \<le> 39
           \<and> \<not> bit m 3 \<and> \<not> bit m 4 \<and> \<not> bit m 6 \<and> \<not> bit m 7))"
proof -
  have r: "0 \<le> included_mask self \<and> included_mask self \<le> 39"
    by (rule included_mask_range)
  have m: "included_mask self \<in> set [0, 1, 2, 3, 4, 5, 6, 7, 32, 33, 34, 35, 36, 37, 38, 39]"
    by (simp add: included_mask_sum)
  have u: "uint (word_of_int (included_mask self) :: byte) = included_mask self"
    using r by (simp add: uint_word_of_int take_bit_eq_mod)
  have b: "\<not> bit (word_of_int (included_mask self) :: byte) 3"
    "\<not> bit (word_of_int (included_mask self) :: byte) 4"
    "\<not> bit (word_of_int (included_mask self) :: byte) 6"
    "\<not> bit (word_of_int (included_mask self) :: byte) 7"
    by (simp_all add: bit_word_of_int_iff included_mask_bits)
  have "ImageRepresentations_serialize_to self f = Inr out \<longrightarrow>
        (\<exists>m t. out = f @ m # t \<and> uint m = included_mask self \<and> uint m \<le> 39
           \<and> \<not> bit m 3 \<and> \<not> bit m 4 \<and> \<not> bit m 6 \<and> \<not> bit m 7)"
  proof
    assume "ImageRepresentations_serialize_to self f = Inr out"
    then obtain t where "out = f @ word_of_int (included_mask self) # t"
      by (blast dest: serialize_to_starts_with_mask)
    with u b r show "\<exists>m t. out = f @ m # t \<and> uint m = included_mask self \<and> uint m \<le> 39
           \<and> \<not> bit m 3 \<and> \<not> bit m 4 \<and> \<not> bit m 6 \<and> \<not> bit m 7"
      by auto
  qed
  with r m show ?thesis by (simp add: included_mask_bits)
qed

theorem C10_mask_bits_witness:
  "included_mask \<lparr>original = Some ex_A, cover = Some ex_B, thumbnail_custom = Some ex_A,
      thumbnail_generated = Some ex_A, thumbnail_generated_webp = Some ex_B\<rparr> = 39
   \<and> (\<exists>(m :: byte) t. [2] @ [1] @ replicate 16 1 @ [3, 32, 2, 88]
                @ [2] @ replicate 16 2 @ [0, 200, 0, 150] = [] @ m # t
          \<and> uint m = included_mask
                (ImageRepresentations_init (Some ex_A) (Some ex_A) None (Some ex_B) None))"
proof -
  let ?s = "ImageRepresentations_init (Some ex_A) (Some ex_A) None (Some ex_B) None"
  let ?out = "[2] @ [1] @ replicate 16 1 @ [3, 32, 2, 88]
                @ [2] @ replicate 16 2 @ [0, 200, 0, 150] :: bytes"
  have "ImageRepresentations_serialize_to ?s [] = Inr ?out"
    by (rule ex_set_serialized)
  with C10_mask_bits [of ?s "[]" ?out]
  have e: "\<exists>m t. ?out = [] @ m # t \<and> uint m = included_mask ?s"
    by blast
  have m: "included_mask \<lparr>original = Some ex_A, cover = Some ex_B,
      thumbnail_custom = Some ex_A, thumbnail_generated = Some ex_A,
      thumbnail_generated_webp = Some ex_B\<rparr> = 39"
    by (simp add: included_mask_sum py_is_def ex_A_def ex_B_def)
  show ?thesis
    by (rule conjI [OF m e])
qed

section \<open>The destination name\<close>

lemma char_roundtrip: "char_of (unat (of_nat (of_char c) :: byte)) = c"
proof -
  have "char_of (unat (of_nat (of_char c) :: byte)) = char_of (of_char c mod 256 :: nat)"
    by (simp add: unat_of_nat)
  also have "\<dots> = char_of (of_char c :: nat)"
    by (rule char_of_mod_256)
  finally show ?thesis by simp
qed

lemma urlsafe_chars_upt:
  "list_all (\<lambda>i. urlsafe_encode_translation (b64_char i) = of_nat (of_char (urlsafe_table ! i))
      \<and> (of_nat (of_char (urlsafe_table ! i)) :: byte) \<noteq> 61
      \<and> unat (of_nat (of_char (urlsafe_table ! i)) :: byte) < 128
      \<and> urlsafe_table ! i \<noteq> CHR ''='')
    [0..<64]"
  by (simp add: upt_conv_Cons urlsafe_encode_translation_def b64_char_def b64_table_def
      urlsafe_table_def)

lemma urlsafe_chars:
  assumes "i < 64"
  shows "urlsafe_encode_translation (b64_char i) = of_nat (of_char (urlsafe_table ! i))"
    and "(of_nat (of_char (urlsafe_table ! i)) :: byte) \<noteq> 61"
    and "unat (of_nat (of_char (urlsafe_table ! i)) :: byte) < 128"
    and "urlsafe_table ! i \<noteq> CHR ''=''"
  using urlsafe_chars_upt assms unfolding list_all_iff by auto

lemma idx_bounds:
  fixes a b c :: byte
  shows "unat a div 4 < 64" "unat a mod 4 * 16 + unat b div 16 < 64"
    "unat b mod 16 * 4 + unat c div 64 < 64" "unat c mod 64 < 64"
    "unat a mod 4 * 16 < 64" "unat b mod 16 * 4 < 64"
proof -
  have lt: "unat a < 256" "unat b < 256" "unat c < 256"
    using unsigned_less [of a, where 'a = nat] unsigned_less [of b, where 'a = nat]
      unsigned_less [of c, where 'a = nat] by simp_all
  have a4: "unat a mod 4 \<le> 3" and b16: "unat b mod 16 \<le> 15"
    by (simp_all add: Suc_le_eq flip: less_Suc_eq_le)
  have bd: "unat b div 16 \<le> 15" and cd: "unat c div 64 \<le> 3"
    using lt by (simp_all add: less_Suc_eq_le [symmetric] div_less_iff_less_mult)
  show "unat a div 4 < 64" using lt by (simp add: div_less_iff_less_mult)
  show "unat a mod 4 * 16 + unat b div 16 < 64" using a4 bd by linarith
  show "unat b mod 16 * 4 + unat c div 64 < 64" using b16 cd by linarith
  show "unat c mod 64 < 64" by simp
  show "unat a mod 4 * 16 < 64" using a4 by linarith
  show "unat b mod 16 * 4 < 64" using b16 by linarith
qed

lemma no_padding_chars:
  "set (urlsafe_base64_no_padding s) \<subseteq> (\<lambda>i. urlsafe_table ! i) ` {..<64}"
  by (induction s rule: urlsafe_base64_no_padding.induct) (auto simp: idx_bounds)

lemma translate_padding: "urlsafe_encode_translation 61 = 61"
  by (simp add: urlsafe_encode_translation_def)

lemma urlsafe_b64encode_split:
  "\<exists>k. urlsafe_b64encode s
     = map (\<lambda>c. of_nat (of_char c)) (urlsafe_base64_no_padding s) @ replicate k 61"
proof (induction s rule: b64encode.induct)
  case 1
  show ?case by (simp add: urlsafe_b64encode_def)
next
  case (2 a)
  have "urlsafe_b64encode [a]
     = map (\<lambda>c. of_nat (of_char c)) (urlsafe_base64_no_padding [a])
         @ replicate (Suc (Suc 0)) 61"
    by (simp add: urlsafe_b64encode_def urlsafe_chars(1) idx_bounds translate_padding)
  then show ?case by blast
next
  case (3 a b)
  have "urlsafe_b64encode [a, b]
     = map (\<lambda>c. of_nat (of_char c)) (urlsafe_base64_no_padding [a, b])
         @ replicate (Suc 0) 61"
    by (simp add: urlsafe_b64encode_def urlsafe_chars(1) idx_bounds translate_padding)
  then show ?case by blast
next
  case (4 a b c s)
  then obtain k where "urlsafe_b64encode s
     = map (\<lambda>c. of_nat (of_char c)) (urlsafe_base64_no_padding s) @ replicate k 61"
    by blast
  then have "urlsafe_b64encode (a # b # c # s)
     = map (\<lambda>c. of_nat (of_char c)) (urlsafe_base64_no_padding (a # b # c # s)) @ replicate k 61"
    by (simp add: urlsafe_b64encode_def urlsafe_chars(1) idx_bounds)
  then show ?case by blast
qed

lemma dropWhile_none:
  "\<forall>y\<in>set ys. \<not> P y \<Longrightarrow> dropWhile P ys = ys"
  by (cases ys) simp_all

lemma rstrip_padding:
  assumes "x \<notin> set xs"
  shows "rstrip [x] (xs @ replicate k x) = xs"
proof -
  have "dropWhile (\<lambda>y. y \<in> set [x]) (replicate k x @ rev xs) = rev xs"
  proof (induction k)
    case 0
    have "dropWhile (\<lambda>y. y \<in> set [x]) (rev xs) = rev xs"
      using assms by (intro dropWhile_none) auto
    then show ?case by simp
  next
    case (Suc k)
    then show ?case by simp
  qed
  then show ?thesis by (simp add: rstrip_def)
qed

lemma decode_encoded:
  assumes "set cs \<subseteq> (\<lambda>i. urlsafe_table ! i) ` {..<64}"
  shows "decode_ascii (map (\<lambda>c. of_nat (of_char c)) cs) = Inr cs"
    and "(61 :: byte) \<notin> set (map (\<lambda>c. of_nat (of_char c)) cs)"
    and "CHR ''='' \<notin> set cs"
proof -
  have a: "unat (of_nat (of_char c) :: byte) < 128
      \<and> (of_nat (of_char c) :: byte) \<noteq> 61 \<and> c \<noteq> CHR ''=''" if "c \<in> set cs" for c
  proof -
    from that assms obtain i where i: "i < 64" "c = urlsafe_table ! i" by auto
    show ?thesis unfolding i(2) using urlsafe_chars(2-4) [OF i(1)] by simp
  qed
  have "map (\<lambda>x. char_of (unat x)) (map (\<lambda>c. of_nat (of_char c) :: byte) cs) = cs"
    by (simp add: char_roundtrip comp_def)
  moreover have "list_all (\<lambda>x. unat x < 128) (map (\<lambda>c. of_nat (of_char c) :: byte) cs)"
    using a by (simp add: list_all_iff)
  ultimately show "decode_ascii (map (\<lambda>c. of_nat (of_char c)) cs) = Inr cs"
    by (simp add: decode_ascii_def)
  show "(61 :: byte) \<notin> set (map (\<lambda>c. of_nat (of_char c)) cs)"
    using a by (auto simp del: of_nat_of_char)
  show "CHR ''='' \<notin> set cs"
    using a by blast
qed

lemma decode_rstrip_urlsafe:
  "decode_ascii (rstrip [61] (urlsafe_b64encode s)) = Inr (urlsafe_base64_no_padding s)"
proof -
  obtain k where k: "urlsafe_b64encode s
     = map (\<lambda>c. of_nat (of_char c)) (urlsafe_base64_no_padding s) @ replicate k 61"
    using urlsafe_b64encode_split by blast
  have "rstrip [61] (urlsafe_b64encode s)
      = map (\<lambda>c. of_nat (of_char c)) (urlsafe_base64_no_padding s)"
    unfolding k by (rule rstrip_padding) (rule decode_encoded(2) [OF no_padding_chars])
  then show ?thesis
    by (simp add: decode_encoded(1) [OF no_padding_chars])
qed

lemma length_no_padding:
  "length (urlsafe_base64_no_padding s) = (4 * length s + 2) div 3"
  by (induction s rule: urlsafe_base64_no_padding.induct) simp_all

lemma extension_cases:
  "extension ct = (case ct of PNG \<Rightarrow> ''.png'' | JPEG \<Rightarrow> ''.jpg'' | GIF_STATIC \<Rightarrow> ''.gif''
                   | WEBP_STATIC \<Rightarrow> ''.webp'')"
  by (cases ct) (simp_all add: extension_def IMAGE_EXTENSIONS_def)

lemma get_bucket_key_eq:
  "get_bucket_key rep = Inr (urlsafe_base64_no_padding (file_key rep) @ extension (content_type rep))"
  by (simp add: get_bucket_key_def decode_rstrip_urlsafe)

section \<open>The transfer of one file\<close>

lemma read_chunks_eq:
  "read_chunks unread md5_fed sha256_fed content_length
     = (md5_fed @ unread, sha256_fed @ unread, content_length + int (length unread))"
proof (induction unread md5_fed sha256_fed content_length rule: read_chunks.induct)
  case (1 unread md5_fed sha256_fed content_length)
  show ?case
  proof (cases "take CHUNK_SIZE unread = []")
    case True
    then have "unread = []" by (simp add: CHUNK_SIZE_def)
    then show ?thesis by (simp add: read_chunks.simps [of "[]"])
  next
    case False
    have split: "take CHUNK_SIZE unread @ drop CHUNK_SIZE unread = unread"
      by (rule append_take_drop_id)
    have len: "int (length (take CHUNK_SIZE unread)) + int (length (drop CHUNK_SIZE unread))
        = int (length unread)"
      by (simp flip: of_nat_add length_append)
    have "read_chunks unread md5_fed sha256_fed content_length
        = read_chunks (drop CHUNK_SIZE unread) (md5_fed @ take CHUNK_SIZE unread)
            (sha256_fed @ take CHUNK_SIZE unread)
            (content_length + int (length (take CHUNK_SIZE unread)))"
      using False by (subst read_chunks.simps) (simp add: Let_def)
    also have "\<dots> = ((md5_fed @ take CHUNK_SIZE unread) @ drop CHUNK_SIZE unread,
        (sha256_fed @ take CHUNK_SIZE unread) @ drop CHUNK_SIZE unread,
        (content_length + int (length (take CHUNK_SIZE unread)))
          + int (length (drop CHUNK_SIZE unread)))"
      using False by (intro "1.IH") simp_all
    finally show ?thesis
      using len by (simp only: append_assoc split add.assoc)
  qed
qed

lemma upload_rep_mismatch:
  assumes "subscript VInt media_by_mediaid (fst item) = Inr m"
    and "file_path_of E m = Inr p"
    and "file_content E p = Some content"
    and "sha256_hexdigest E content \<noteq> sha256 m"
  shows "upload_rep E media_by_mediaid item s =
     (Inl (Exception [Lit ''SHA-256 mismatch: got '', FmtR (VStr (sha256_hexdigest E content)),
                      Lit '' for '', FmtR (VBytes p)] None), s)"
  using assms by (simp add: upload_rep_def read_chunks_eq)

lemma upload_rep_outcome:
  assumes "upload_rep E media_by_mediaid item s = (r, s')"
  shows "(isl r \<and> s' = s) \<or>
     (\<exists>m p content.
        map_of media_by_mediaid (fst item) = Some m \<and> file_path_of E m = Inr p \<and>
        file_content E p = Some content \<and> sha256_hexdigest E content = sha256 m \<and>
        Body (last (put_calls s')) = content \<and>
        ContentLength (last (put_calls s')) = int (length content) \<and>
        ContentType (last (put_calls s')) = media_type (content_type (deref (snd item))) \<and>
        get_bucket_key (deref (snd item)) = Inr (Key (last (put_calls s'))) \<and>
        s' = s\<lparr>put_calls := put_calls s @ [last (put_calls s')]\<rparr>)"
  using assms
  by (auto simp: upload_rep_def read_chunks_eq subscript_def put_object_def Let_def
      split: option.splits sum.splits if_splits)

section \<open>Dictionaries and the resolution of links\<close>

lemma update_fresh:
  "map_of al k = None \<Longrightarrow> AList.update k v al = al @ [(k, v)]"
  by (induction al) (auto split: if_splits)

lemma lookup_by_loop_Inr:
  "lookup_by_loop xs key_func acc = Inr d \<Longrightarrow>
     d = acc @ map (\<lambda>x. (key_func x, x)) xs \<and> distinct (map key_func xs) \<and>
     key_func ` set xs \<inter> fst ` set acc = {}"
proof (induction xs arbitrary: acc)
  case Nil
  then show ?case by simp
next
  case (Cons x xs)
  from Cons.prems have fresh: "map_of acc (key_func x) = None"
    by (auto simp: Let_def split: if_splits)
  with Cons.prems have "lookup_by_loop xs key_func (acc @ [(key_func x, x)]) = Inr d"
    by (simp add: Let_def update_fresh)
  from Cons.IH [OF this]
  have d: "d = (acc @ [(key_func x, x)]) @ map (\<lambda>x. (key_func x, x)) xs"
    and dist: "distinct (map key_func xs)"
    and disj: "key_func ` set xs \<inter> fst ` set (acc @ [(key_func x, x)]) = {}"
    by blast+
  from fresh have nx: "key_func x \<notin> fst ` set acc"
    by (simp add: map_of_eq_None_iff)
  from disj have "key_func x \<notin> key_func ` set xs" and "key_func ` set xs \<inter> fst ` set acc = {}"
    by auto
  with d dist nx show ?case by auto
qed

lemma lookup_by_Inr:
  assumes "lookup_by xs key_func = Inr d"
  shows "d = map (\<lambda>x. (key_func x, x)) xs" and "distinct (map key_func xs)"
  using lookup_by_loop_Inr [of xs key_func "[]" d] assms by (simp_all add: lookup_by_def)

lemma subdict_fold:
  fixes d :: "('k \<times> 'v) list"
  defines "step \<equiv> (\<lambda>acc k. case map_of d k of None \<Rightarrow> acc | Some v \<Rightarrow> AList.update k v acc)"
  shows "map_of (foldl step acc keys) k =
           (if k \<in> set keys \<and> map_of d k \<noteq> None then map_of d k else map_of acc k)"
    and "distinct (map fst acc) \<Longrightarrow> distinct (map fst (foldl step acc keys))"
proof (induction keys arbitrary: acc)
  case Nil
  { case 1 show ?case by simp }
  { case 2 then show ?case by simp }
next
  case (Cons a keys)
  have m: "map_of (step acc a) k =
      (if k = a \<and> map_of d a \<noteq> None then map_of d a else map_of acc k)" for acc
    by (cases "map_of d a") (simp_all add: step_def update_conv')
  { case 1
    have "map_of (foldl step acc (a # keys)) k = map_of (foldl step (step acc a) keys) k"
      by simp
    also have "\<dots> = (if k \<in> set keys \<and> map_of d k \<noteq> None then map_of d k
                         else map_of (step acc a) k)"
      by (rule Cons.IH(1))
    also have "\<dots> = (if k \<in> set (a # keys) \<and> map_of d k \<noteq> None then map_of d k
                         else map_of acc k)"
      unfolding m by auto
    finally show ?case . }
  { case 2
    then have "distinct (map fst (step acc a))"
      by (cases "map_of d a") (simp_all add: step_def distinct_update)
    then have "distinct (map fst (foldl step (step acc a) keys))"
      by (rule Cons.IH(2))
    then show ?case by simp }
qed

lemma subdict_map_of:
  "map_of (subdict d keys) k = (if k \<in> set keys then map_of d k else None)"
  unfolding subdict_def by (simp add: subdict_fold(1))

lemma subdict_distinct: "distinct (map fst (subdict d keys))"
  unfolding subdict_def by (rule subdict_fold(2)) simp

lemma links_of_Inr:
  assumes "links_of r = Inr ls"
  shows "distinct (map fst ls)"
    and "map_of ls lt = Some l \<Longrightarrow> l \<in> set (links r) \<and> link_type l = lt \<and> lt \<in> set known_link_types"
    and "lt \<in> set known_link_types \<Longrightarrow> l \<in> set (links r) \<Longrightarrow> link_type l = lt \<Longrightarrow> map_of ls lt = Some l"
    and "distinct (map link_type (links r))"
proof -
  from assms obtain d where d: "lookup_by (links r) link_type = Inr d"
    and ls: "ls = subdict d known_link_types"
    by (auto simp: links_of_def split: sum.splits)
  note dd = lookup_by_Inr [OF d]
  show "distinct (map fst ls)" unfolding ls by (rule subdict_distinct)
  from dd show dl: "distinct (map link_type (links r))" by simp
  show "l \<in> set (links r) \<and> link_type l = lt \<and> lt \<in> set known_link_types"
    if "map_of ls lt = Some l"
  proof -
    from that have "lt \<in> set known_link_types" "map_of d lt = Some l"
      unfolding ls by (auto simp: subdict_map_of split: if_splits)
    then have "(lt, l) \<in> set d" by (simp add: map_of_SomeD)
    with dd(1) \<open>lt \<in> set known_link_types\<close> show ?thesis by auto
  qed
  show "map_of ls lt = Some l"
    if "lt \<in> set known_link_types" "l \<in> set (links r)" "link_type l = lt"
  proof -
    from that dd(1) have "(lt, l) \<in> set d" by auto
    moreover from dd have "distinct (map fst d)" by (simp add: comp_def)
    ultimately have "map_of d lt = Some l" by simp
    with that(1) show ?thesis unfolding ls by (simp add: subdict_map_of)
  qed
qed

lemma set_alist_update_subset:
  "set (AList.update k v al) \<subseteq> insert (k, v) (set al)"
  by (induction al) auto

lemma media_fold:
  fixes step :: "(int \<times> media) list \<Rightarrow> link \<Rightarrow> (int \<times> media) list"
  defines "step \<equiv> (\<lambda>acc l. AList.update (mediaid l) (media.truncate l) acc)"
  shows "distinct (map fst acc) \<Longrightarrow> distinct (map fst (foldl step acc xs))"
    and "fst ` set (foldl step acc xs) = fst ` set acc \<union> mediaid ` set xs"
    and "(i, m) \<in> set (foldl step acc xs) \<Longrightarrow>
           (i, m) \<in> set acc \<or> (\<exists>l\<in>set xs. mediaid l = i \<and> m = media.truncate l)"
proof (induction xs arbitrary: acc)
  case Nil
  { case 1 then show ?case by simp }
  { case 2 show ?case by simp }
  { case 3 then show ?case by simp }
next
  case (Cons x xs)
  { case 1
    then have "distinct (map fst (step acc x))" by (simp add: step_def distinct_update)
    then show ?case by (simp add: Cons.IH(1)) }
  { case 2
    have "fst ` set (step acc x) = insert (mediaid x) (fst ` set acc)"
      by (simp add: step_def dom_update)
    then show ?case by (simp add: Cons.IH(2)) }
  { case 3
    then have "(i, m) \<in> set (foldl step (step acc x) xs)" by simp
    from Cons.IH(3) [OF this]
    have "(i, m) \<in> set (step acc x) \<or> (\<exists>l\<in>set xs. mediaid l = i \<and> m = media.truncate l)" .
    moreover have "(i, m) \<in> set (step acc x) \<Longrightarrow>
        (i, m) \<in> set acc \<or> (mediaid x = i \<and> m = media.truncate x)"
      using set_alist_update_subset [of "mediaid x" "media.truncate x" acc]
      by (auto simp: step_def)
    ultimately show ?case by auto }
qed

lemma media_by_mediaid_of_props:
  shows "distinct (map fst (media_by_mediaid_of ls))"
    and "fst ` set (media_by_mediaid_of ls) = mediaid ` snd ` set ls"
    and "(i, m) \<in> set (media_by_mediaid_of ls) \<Longrightarrow>
           \<exists>l\<in>snd ` set ls. mediaid l = i \<and> m = media.truncate l"
    and "length (media_by_mediaid_of ls) = card (mediaid ` snd ` set ls)"
proof -
  show d: "distinct (map fst (media_by_mediaid_of ls))"
    unfolding media_by_mediaid_of_def by (rule media_fold(1)) simp
  show k: "fst ` set (media_by_mediaid_of ls) = mediaid ` snd ` set ls"
    unfolding media_by_mediaid_of_def by (simp add: media_fold(2))
  show "\<exists>l\<in>snd ` set ls. mediaid l = i \<and> m = media.truncate l"
    if "(i, m) \<in> set (media_by_mediaid_of ls)"
    using media_fold(3) [of i m "[]" "map snd ls"] that
    unfolding media_by_mediaid_of_def by simp
  have "length (media_by_mediaid_of ls) = length (map fst (media_by_mediaid_of ls))" by simp
  also have "\<dots> = card (set (map fst (media_by_mediaid_of ls)))"
    using d by (simp only: distinct_card)
  also have "\<dots> = card (mediaid ` snd ` set ls)" using k by simp
  finally show "length (media_by_mediaid_of ls) = card (mediaid ` snd ` set ls)" .
qed

lemma rep_from_media_Inr:
  assumes "rep_from_media E m s = (Inr x, s')"
  shows "ident x = objects_made s" and "objects_made s' = Suc (objects_made s)"
    and "put_calls s' = put_calls s" and "constructed (Some x)"
  using assms
  by (auto simp: rep_from_media_def token_bytes_def constructed_def ImageRepresentation_init_Inr
      split: sum.splits prod.splits)

lemma rep_from_media_put_calls:
  "rep_from_media E m s = (r, s') \<Longrightarrow> put_calls s' = put_calls s"
  by (auto simp: rep_from_media_def token_bytes_def split: sum.splits prod.splits)

lemma map_values_loop_put_calls:
  "map_values_loop (rep_from_media E) d acc s = (r, s') \<Longrightarrow> put_calls s' = put_calls s"
proof (induction d arbitrary: acc s)
  case Nil
  then show ?case by simp
next
  case (Cons kv d)
  obtain k v where kv: "kv = (k, v)" by (cases kv)
  obtain q s1 where f: "rep_from_media E v s = (q, s1)" by (cases "rep_from_media E v s")
  show ?case
  proof (cases q)
    case (Inl e)
    with Cons.prems f kv rep_from_media_put_calls [OF f] show ?thesis by simp
  next
    case (Inr w)
    with Cons.prems f kv
    have "map_values_loop (rep_from_media E) d (AList.update k w acc) s1 = (r, s')" by simp
    from Cons.IH [OF this] rep_from_media_put_calls [OF f] show ?thesis by simp
  qed
qed

lemma map_values_loop_Inr:
  assumes "map_values_loop (rep_from_media E) d acc s = (Inr res, s')"
    and "distinct (map fst d)" and "fst ` set d \<inter> fst ` set acc = {}"
  shows "map fst res = map fst acc @ map fst d
     \<and> map (\<lambda>p. ident (snd p)) res
         = map (\<lambda>p. ident (snd p)) acc @ [objects_made s ..< objects_made s + length d]
     \<and> objects_made s' = objects_made s + length d
     \<and> (\<forall>p\<in>set res. p \<in> set acc \<or> constructed (Some (snd p)))"
  using assms
proof (induction d arbitrary: acc s)
  case Nil
  then show ?case by simp
next
  case (Cons kv d)
  obtain k v where kv: "kv = (k, v)" by (cases kv)
  obtain q s1 where f: "rep_from_media E v s = (q, s1)" by (cases "rep_from_media E v s")
  from Cons.prems(1) f kv obtain w where q: "q = Inr w"
    by (cases q) simp_all
  note w = rep_from_media_Inr [OF f [unfolded q]]
  from Cons.prems(3) kv have fresh: "map_of acc k = None"
    by (auto simp: map_of_eq_None_iff)
  then have upd: "AList.update k w acc = acc @ [(k, w)]" by (rule update_fresh)
  from Cons.prems(1) f kv q upd
  have run: "map_values_loop (rep_from_media E) d (acc @ [(k, w)]) s1 = (Inr res, s')" by simp
  have d1: "distinct (map fst d)" using Cons.prems(2) by simp
  have d2: "fst ` set d \<inter> fst ` set (acc @ [(k, w)]) = {}"
    using Cons.prems(2,3) kv by auto
  from Cons.IH [OF run d1 d2]
  have ih: "map fst res = map fst (acc @ [(k, w)]) @ map fst d"
    "map (\<lambda>p. ident (snd p)) res
         = map (\<lambda>p. ident (snd p)) (acc @ [(k, w)]) @ [objects_made s1 ..< objects_made s1 + length d]"
    "objects_made s' = objects_made s1 + length d"
    "\<forall>p\<in>set res. p \<in> set (acc @ [(k, w)]) \<or> constructed (Some (snd p))"
    by blast+
  have upt: "[objects_made s ..< objects_made s + length (kv # d)]
      = objects_made s # [Suc (objects_made s) ..< Suc (objects_made s) + length d]"
    by (simp add: upt_rec)
  show ?case
    using ih w kv unfolding upt by auto
qed

lemma rep_by_mediaid_of_Inr:
  assumes "rep_by_mediaid_of E ls s = (Inr rbm, s1)"
  shows "map fst rbm = map fst (media_by_mediaid_of ls)"
    and "map (\<lambda>p. ident (snd p)) rbm
           = [objects_made s ..< objects_made s + card (mediaid ` snd ` set ls)]"
    and "objects_made s1 = objects_made s + card (mediaid ` snd ` set ls)"
    and "put_calls s1 = put_calls s"
    and "\<forall>p\<in>set rbm. constructed (Some (snd p))"
    and "length rbm = card (mediaid ` snd ` set ls)"
    and "distinct (map fst rbm)"
    and "fst ` set rbm = mediaid ` snd ` set ls"
proof -
  from assms have run:
    "map_values_loop (rep_from_media E) (media_by_mediaid_of ls) [] s = (Inr rbm, s1)"
    by (simp add: rep_by_mediaid_of_def map_values_def)
  note mv = map_values_loop_Inr [OF run media_by_mediaid_of_props(1) [of ls], simplified]
  note len = media_by_mediaid_of_props(4) [of ls]
  from mv show k: "map fst rbm = map fst (media_by_mediaid_of ls)" by blast
  from mv len show "map (\<lambda>p. ident (snd p)) rbm
           = [objects_made s ..< objects_made s + card (mediaid ` snd ` set ls)]" by simp
  from mv len show "objects_made s1 = objects_made s + card (mediaid ` snd ` set ls)" by simp
  from run show "put_calls s1 = put_calls s" by (rule map_values_loop_put_calls)
  from mv show "\<forall>p\<in>set rbm. constructed (Some (snd p))" by blast
  from k have "length (map fst rbm) = length (map fst (media_by_mediaid_of ls))" by simp
  with len show "length rbm = card (mediaid ` snd ` set ls)" by simp
  from k media_by_mediaid_of_props(1) [of ls] show "distinct (map fst rbm)" by simp
  have "fst ` set rbm = set (map fst rbm)" by simp
  also have "\<dots> = fst ` set (media_by_mediaid_of ls)" unfolding k by simp
  finally show "fst ` set rbm = mediaid ` snd ` set ls"
    by (simp add: media_by_mediaid_of_props(2))
qed

lemma get_rep_resolved:
  assumes "\<And>l. map_of ls lt = Some l \<Longrightarrow> map_of rbm (mediaid l) \<noteq> None"
  shows "get_rep ls rbm lt True = Inr (resolved ls rbm lt)"
    and "map_of ls lt \<noteq> None \<Longrightarrow> get_rep ls rbm lt False = Inr (resolved ls rbm lt)"
    and "map_of ls lt = None \<Longrightarrow> get_rep ls rbm lt False =
           Inl (Exception [Lit ''Required key not found in '', FmtR (VLinks ls)]
                  (Some (KeyError (VStr lt))))"
  using assms
  by (auto simp: get_rep_def resolved_def subscript_def split: option.splits)

lemma resolved_Some:
  assumes "map_of ls lt = Some l" "fst ` set rbm = mediaid ` snd ` set ls"
  shows "map_of rbm (mediaid l) \<noteq> None"
proof -
  from assms(1) have "(lt, l) \<in> set ls" by (rule map_of_SomeD)
  then have "mediaid l \<in> mediaid ` snd ` set ls" by force
  with assms(2) have "mediaid l \<in> fst ` set rbm" by simp
  then show ?thesis by (simp add: map_of_eq_None_iff)
qed

lemma build_reps_outcome:
  assumes keys: "fst ` set rbm = mediaid ` snd ` set ls"
  shows "build_reps ls rbm =
     (if map_of ls ''submission'' = None
        then Inl (Exception [Lit ''Required key not found in '', FmtR (VLinks ls)]
                    (Some (KeyError (VStr ''submission''))))
      else if map_of ls ''cover'' = None
        then Inl (Exception [Lit ''Required key not found in '', FmtR (VLinks ls)]
                    (Some (KeyError (VStr ''cover''))))
      else if map_of ls ''thumbnail-generated'' = None
        then Inl (Exception [Lit ''Required key not found in '', FmtR (VLinks ls)]
                    (Some (KeyError (VStr ''thumbnail-generated''))))
      else Inr (ImageRepresentations_init (resolved ls rbm ''submission'')
                  (resolved ls rbm ''cover'') (resolved ls rbm ''thumbnail-custom'')
                  (resolved ls rbm ''thumbnail-generated'')
                  (resolved ls rbm ''thumbnail-generated-webp'')))"
proof -
  have k: "map_of ls lt = Some l \<Longrightarrow> map_of rbm (mediaid l) \<noteq> None" for lt l
    by (rule resolved_Some [OF _ keys])
  note g = get_rep_resolved [OF k]
  show ?thesis
    unfolding build_reps_def
    by (simp add: g(1) [where lt = "''thumbnail-custom''"]
        g(1) [where lt = "''thumbnail-generated-webp''"]
        g(2) [where lt = "''submission''"] g(3) [where lt = "''submission''"]
        g(2) [where lt = "''cover''"] g(3) [where lt = "''cover''"]
        g(2) [where lt = "''thumbnail-generated''"] g(3) [where lt = "''thumbnail-generated''"])
qed

lemma build_reps_slot:
  assumes keys: "fst ` set rbm = mediaid ` snd ` set ls"
    and ok: "build_reps ls rbm = Inr reps"
    and lt: "lt \<in> set known_link_types"
  shows "slot lt reps = resolved ls rbm lt"
proof -
  from ok have p: "map_of ls ''submission'' \<noteq> None" "map_of ls ''cover'' \<noteq> None"
      "map_of ls ''thumbnail-generated'' \<noteq> None"
    and reps: "reps = ImageRepresentations_init (resolved ls rbm ''submission'')
                  (resolved ls rbm ''cover'') (resolved ls rbm ''thumbnail-custom'')
                  (resolved ls rbm ''thumbnail-generated'')
                  (resolved ls rbm ''thumbnail-generated-webp'')"
    unfolding build_reps_outcome [OF keys] by (auto split: if_splits)
  from p(2) obtain lc where lc: "map_of ls ''cover'' = Some lc" by auto
  from p(3) obtain lg where lg: "map_of ls ''thumbnail-generated'' = Some lg" by auto
  have c: "resolved ls rbm ''cover'' \<noteq> None"
    using resolved_Some [OF lc keys] by (simp add: resolved_def lc)
  have g: "resolved ls rbm ''thumbnail-generated'' \<noteq> None"
    using resolved_Some [OF lg keys] by (simp add: resolved_def lg)
  from lt consider "lt = ''submission''" | "lt = ''cover''" | "lt = ''thumbnail-custom''"
    | "lt = ''thumbnail-generated''" | "lt = ''thumbnail-generated-webp''"
    unfolding known_link_types_def by fastforce
  then show ?thesis
  proof cases
    case 1
    then show ?thesis unfolding reps by (simp add: slot_def ImageRepresentations_init_def Let_def)
  next
    case 2
    with c show ?thesis unfolding reps by (auto simp: slot_def ImageRepresentations_init_def Let_def)
  next
    case 3
    then show ?thesis unfolding reps by (simp add: slot_def ImageRepresentations_init_def Let_def)
  next
    case 4
    with g show ?thesis unfolding reps by (auto simp: slot_def ImageRepresentations_init_def Let_def)
  next
    case 5
    then show ?thesis unfolding reps by (simp add: slot_def ImageRepresentations_init_def Let_def)
  qed
qed

lemma ident_inj:
  assumes "distinct (map (\<lambda>p. ident (snd p)) rbm)" "p \<in> set rbm" "q \<in> set rbm"
    "ident (snd p) = ident (snd q)"
  shows "p = q"
  using assms by (auto simp: distinct_map inj_on_def)

lemma create_reps_Inr:
  assumes "create_reps E r s = (Inr res, s')"
  shows "\<exists>ls rbm s1 reps.
     links_of r = Inr ls \<and> rep_by_mediaid_of E ls s = (Inr rbm, s1) \<and>
     build_reps ls rbm = Inr reps \<and>
     upload_all E (media_by_mediaid_of ls) rbm s1 = (Inr (), s') \<and>
     res = (reps, int (length rbm))"
  using assms
  by (auto simp: create_reps_def split: sum.splits prod.splits)

lemma upload_all_frame:
  "upload_all E mbm items s = (r, s') \<Longrightarrow>
     objects_made s' = objects_made s \<and> entropy_used s' = entropy_used s \<and>
     (\<exists>new. put_calls s' = put_calls s @ new \<and>
        (\<forall>req\<in>set new. \<exists>i m. map_of mbm i = Some m \<and> sha256_hexdigest E (Body req) = sha256 m))"
proof (induction items arbitrary: s)
  case Nil
  then show ?case by simp
next
  case (Cons item items)
  obtain q s1 where u: "upload_rep E mbm item s = (q, s1)" by (cases "upload_rep E mbm item s")
  from upload_rep_outcome [OF u]
  have step: "objects_made s1 = objects_made s \<and> entropy_used s1 = entropy_used s \<and>
     (\<exists>new. put_calls s1 = put_calls s @ new \<and>
        (\<forall>req\<in>set new. \<exists>i m. map_of mbm i = Some m \<and> sha256_hexdigest E (Body req) = sha256 m))"
  proof
    assume "isl q \<and> s1 = s"
    then show ?thesis by simp
  next
    assume "\<exists>m p content.
        map_of mbm (fst item) = Some m \<and> file_path_of E m = Inr p \<and>
        file_content E p = Some content \<and> sha256_hexdigest E content = sha256 m \<and>
        Body (last (put_calls s1)) = content \<and>
        ContentLength (last (put_calls s1)) = int (length content) \<and>
        ContentType (last (put_calls s1)) = media_type (content_type (deref (snd item))) \<and>
        get_bucket_key (deref (snd item)) = Inr (Key (last (put_calls s1))) \<and>
        s1 = s\<lparr>put_calls := put_calls s @ [last (put_calls s1)]\<rparr>"
    then obtain m where m: "map_of mbm (fst item) = Some m"
        "sha256_hexdigest E (Body (last (put_calls s1))) = sha256 m"
        and s1: "s1 = s\<lparr>put_calls := put_calls s @ [last (put_calls s1)]\<rparr>"
      by auto
    have f: "objects_made s1 = objects_made s" "entropy_used s1 = entropy_used s"
      "put_calls s1 = put_calls s @ [last (put_calls s1)]"
      by (subst s1, simp)+
    have "\<forall>req\<in>set [last (put_calls s1)].
        \<exists>i m. map_of mbm i = Some m \<and> sha256_hexdigest E (Body req) = sha256 m"
      using m by auto
    with f(3) have "\<exists>new. put_calls s1 = put_calls s @ new \<and>
        (\<forall>req\<in>set new. \<exists>i m. map_of mbm i = Some m \<and> sha256_hexdigest E (Body req) = sha256 m)"
      by blast
    with f(1,2) show ?thesis by blast
  qed
  then obtain new1 where s1: "objects_made s1 = objects_made s" "entropy_used s1 = entropy_used s"
      "put_calls s1 = put_calls s @ new1"
      "\<forall>req\<in>set new1. \<exists>i m. map_of mbm i = Some m \<and> sha256_hexdigest E (Body req) = sha256 m"
    by blast
  show ?case
  proof (cases q)
    case (Inl e)
    with Cons.prems u have "s' = s1" by simp
    with step show ?thesis by simp
  next
    case (Inr w)
    with Cons.prems u have "upload_all E mbm items s1 = (r, s')" by simp
    from Cons.IH [OF this] obtain new2 where s2: "objects_made s' = objects_made s1"
      "entropy_used s' = entropy_used s1" "put_calls s' = put_calls s1 @ new2"
      "\<forall>req\<in>set new2. \<exists>i m. map_of mbm i = Some m \<and> sha256_hexdigest E (Body req) = sha256 m"
      by blast
    have "put_calls s' = put_calls s @ (new1 @ new2)" using s1(3) s2(3) by simp
    moreover have "\<forall>req\<in>set (new1 @ new2).
        \<exists>i m. map_of mbm i = Some m \<and> sha256_hexdigest E (Body req) = sha256 m"
      using s1(4) s2(4) by auto
    ultimately have "\<exists>new. put_calls s' = put_calls s @ new \<and>
        (\<forall>req\<in>set new. \<exists>i m. map_of mbm i = Some m \<and> sha256_hexdigest E (Body req) = sha256 m)"
      by blast
    with s1(1,2) s2(1,2) show ?thesis by simp
  qed
qed

section \<open>The end-to-end example\<close>

lemma ex_links_of: "links_of (ex_row i j) = Inr (ex_links i j)"
  by (simp add: links_of_def lookup_by_def subdict_def known_link_types_def ex_row_def
      ex_link_def ex_links_def Let_def)

lemma ex_media_by_mediaid:
  "i \<noteq> j \<Longrightarrow> media_by_mediaid_of (ex_links i j)
   = [(i, \<lparr>sha256 = ex_sha1, file_type = ''png'', attributes = [(''width'', 800), (''height'', 600)]\<rparr>),
      (j, \<lparr>sha256 = ex_sha2, file_type = ''jpg'', attributes = [(''width'', 200), (''height'', 150)]\<rparr>)]"
  by (simp add: media_by_mediaid_of_def ex_link_def ex_links_def media.truncate_def)

lemma ex_random:
  "map of_nat [0..<16] = ([0, 1, 2, 3, 4, 5, 6, 7, 8, 9, 10, 11, 12, 13, 14, 15] :: bytes)"
  "map of_nat [16..<32]
     = ([16, 17, 18, 19, 20, 21, 22, 23, 24, 25, 26, 27, 28, 29, 30, 31] :: bytes)"
  by code_simp+

lemma ex_rep_by_mediaid:
  "i \<noteq> j \<Longrightarrow> rep_by_mediaid_of ex_env (ex_links i j) ex_world
   = (Inr [(i, ex_rep1), (j, ex_rep2)],
      \<lparr>entropy_used = 32, objects_made = 2, put_calls = []\<rparr>)"
  by (simp add: rep_by_mediaid_of_def ex_media_by_mediaid map_values_def rep_from_media_def
      subscript_def IMAGE_CONTENT_TYPES_def token_bytes_def FILE_KEY_LENGTH_def ex_env_def
      ex_world_def ImageRepresentation_init_def ex_rep1_def ex_rep2_def ex_random)

lemma ex_build_reps:
  "i \<noteq> j \<Longrightarrow> build_reps (ex_links i j) [(i, ex_rep1), (j, ex_rep2)] = Inr ex_reps"
  by (simp add: build_reps_def get_rep_def subscript_def ex_link_def ex_links_def
      ImageRepresentations_init_def ex_reps_def)

lemma ex_cache_control: "py_str_int YEAR_SECONDS = ''31536000''"
  by (simp add: py_str_int_def YEAR_SECONDS_def digits.simps char_of_def bit_Suc_0_iff)

lemma ex_md5:
  "decode_ascii (b64encode (md5_digest ex_env [1, 2, 3])) = Inr ''Uonfc331cyb83SJZevsfrA==''"
  "decode_ascii (b64encode (md5_digest ex_env [4, 5])) = Inr ''+6KCzV+sofdhnkt5aaJ/Zg==''"
  by (simp_all add: ex_env_def decode_ascii_def b64_char_def b64_table_def char_of_def
      bit_Suc_0_iff)

lemma ex_files:
  "file_path_of ex_env
     \<lparr>sha256 = ex_sha1, file_type = ''png'', attributes = [(''width'', 800), (''height'', 600)]\<rparr>
   = Inr ex_path1"
  "file_path_of ex_env
     \<lparr>sha256 = ex_sha2, file_type = ''jpg'', attributes = [(''width'', 200), (''height'', 150)]\<rparr>
   = Inr ex_path2"
  "file_content ex_env ex_path1 = Some [1, 2, 3]"
  "file_content ex_env ex_path2 = Some [4, 5]"
  "sha256_hexdigest ex_env [1, 2, 3] = ex_sha1"
  "sha256_hexdigest ex_env [4, 5] = ex_sha2"
  "put_object_error ex_env req = None"
  by (simp_all add: file_path_of_def encode_ascii_def ex_env_def ascii_def ex_sha1_def ex_sha2_def
      ex_path1_def ex_path2_def)

lemma ex_names:
  "get_bucket_key (deref ex_rep1) = Inr ''AAECAwQFBgcICQoLDA0ODw.png''"
  "get_bucket_key (deref ex_rep2) = Inr ''EBESExQVFhcYGRobHB0eHw.jpg''"
  by (simp_all add: get_bucket_key_eq ex_rep1_def ex_rep2_def urlsafe_table_def extension_def
      IMAGE_EXTENSIONS_def)

lemma ex_media_types:
  "media_type (content_type (deref ex_rep1)) = ''image/png''"
  "media_type (content_type (deref ex_rep2)) = ''image/jpeg''"
  by (simp_all add: media_type_def IMAGE_MEDIA_TYPES_def ex_rep1_def ex_rep2_def)

lemma ex_upload_all:
  "i \<noteq> j \<Longrightarrow> upload_all ex_env
     [(i, \<lparr>sha256 = ex_sha1, file_type = ''png'', attributes = [(''width'', 800), (''height'', 600)]\<rparr>),
      (j, \<lparr>sha256 = ex_sha2, file_type = ''jpg'', attributes = [(''width'', 200), (''height'', 150)]\<rparr>)]
     [(i, ex_rep1), (j, ex_rep2)]
     \<lparr>entropy_used = 32, objects_made = 2, put_calls = []\<rparr>
   = (Inr (), \<lparr>entropy_used = 32, objects_made = 2, put_calls = [ex_put1, ex_put2]\<rparr>)"
  by (simp add: upload_rep_def subscript_def ex_files read_chunks_eq ex_md5 ex_names
      ex_media_types ex_cache_control put_object_def ex_put1_def ex_put2_def)

lemma ex_create_reps:
  "i \<noteq> j \<Longrightarrow> create_reps ex_env (ex_row i j) ex_world
     = (Inr (ex_reps, 2), \<lparr>entropy_used = 32, objects_made = 2, put_calls = [ex_put1, ex_put2]\<rparr>)"
  by (simp add: create_reps_def ex_links_of ex_rep_by_mediaid ex_build_reps ex_media_by_mediaid
      ex_upload_all del: upload_all.simps)

section \<open>Integrity of the transfer\<close>

lemma sha256_truncate: "sha256 (media.truncate l) = sha256 l"
  by (simp add: media.truncate_def)

lemma links_of_member:
  assumes "links_of r = Inr ls" "(lt, l) \<in> set ls"
  shows "l \<in> set (links r)" "link_type l = lt" "lt \<in> set known_link_types" "map_of ls lt = Some l"
proof -
  from assms links_of_Inr(1) [OF assms(1)] show m: "map_of ls lt = Some l" by simp
  from links_of_Inr(2) [OF assms(1) m]
  show "l \<in> set (links r)" "link_type l = lt" "lt \<in> set known_link_types" by simp_all
qed

lemma create_reps_put_calls:
  assumes "create_reps E r s = (res, s')"
  shows "\<exists>new. put_calls s' = put_calls s @ new \<and>
     (\<forall>req\<in>set new. \<exists>l\<in>set (links r). sha256_hexdigest E (Body req) = sha256 l)"
proof (cases "links_of r")
  case (Inl e)
  with assms have "s' = s" by (simp add: create_reps_def)
  then show ?thesis by simp
next
  case (Inr ls)
  obtain q s1 where q: "rep_by_mediaid_of E ls s = (q, s1)"
    by (cases "rep_by_mediaid_of E ls s")
  then have p1: "put_calls s1 = put_calls s"
    unfolding rep_by_mediaid_of_def map_values_def by (rule map_values_loop_put_calls)
  show ?thesis
  proof (cases q)
    case (Inl e)
    with assms Inr q have "s' = s1" by (simp add: create_reps_def)
    with p1 show ?thesis by simp
  next
    case rbm: (Inr rbm)
    show ?thesis
    proof (cases "build_reps ls rbm")
      case (Inl e)
      with assms Inr q rbm have "s' = s1" by (simp add: create_reps_def)
      with p1 show ?thesis by simp
    next
      case reps: (Inr reps)
      obtain u s2 where u: "upload_all E (media_by_mediaid_of ls) rbm s1 = (u, s2)"
        by (cases "upload_all E (media_by_mediaid_of ls) rbm s1")
      with assms Inr q rbm reps have "s' = s2"
        by (cases u) (simp_all add: create_reps_def)
      with upload_all_frame [OF u] p1 obtain new where new: "put_calls s' = put_calls s @ new"
        "\<forall>req\<in>set new. \<exists>i m. map_of (media_by_mediaid_of ls) i = Some m
            \<and> sha256_hexdigest E (Body req) = sha256 m"
        by auto
      have "\<exists>l\<in>set (links r). sha256_hexdigest E (Body req) = sha256 l" if "req \<in> set new" for req
      proof -
        from new(2) that obtain i m where m: "map_of (media_by_mediaid_of ls) i = Some m"
          "sha256_hexdigest E (Body req) = sha256 m" by blast
        from m(1) have "(i, m) \<in> set (media_by_mediaid_of ls)" by (rule map_of_SomeD)
        from media_by_mediaid_of_props(3) [OF this] obtain lt l where
          l: "(lt, l) \<in> set ls" "m = media.truncate l" by force
        from links_of_member(1) [OF Inr l(1)] m(2) l(2) show ?thesis
          by (auto simp: sha256_truncate)
      qed
      with new(1) show ?thesis by blast
    qed
  qed
qed

text \<open>
  C8. When the bytes read from an item's file hash to a digest other than the one in its
  media record, its turn of the upload loop raises the SHA-256 mismatch exception and
  makes no \<open>put_object\<close> call. Whatever a turn returns, it has made at most one call,
  and only with a body whose digest is the expected one; so every call a run of
  \<open>create_reps\<close> makes, however it ends, carries a body whose digest is the one recorded
  for one of the row's links.
\<close>

theorem C8_mismatch_is_never_uploaded:
  "(subscript VInt media_by_mediaid (fst item) = Inr m \<and> file_path_of E m = Inr p \<and>
      file_content E p = Some content \<and> sha256_hexdigest E content \<noteq> sha256 m \<longrightarrow>
      upload_rep E media_by_mediaid item s =
        (Inl (Exception [Lit ''SHA-256 mismatch: got '',
                         FmtR (VStr (sha256_hexdigest E content)),
                         Lit '' for '', FmtR (VBytes p)] None), s))
   \<and> (upload_rep E media_by_mediaid item s = (q, s1) \<longrightarrow>
        put_calls s1 = put_calls s \<or>
        (\<exists>m'. map_of media_by_mediaid (fst item) = Some m' \<and>
           put_calls s1 = put_calls s @ [last (put_calls s1)] \<and>
           sha256_hexdigest E (Body (last (put_calls s1))) = sha256 m'))
   \<and> (create_reps E r s = (res, s') \<longrightarrow>
        (\<exists>new. put_calls s' = put_calls s @ new \<and>
           (\<forall>req\<in>set new. \<exists>l\<in>set (links r). sha256_hexdigest E (Body req) = sha256 l)))"
proof (intro conjI impI)
  assume "subscript VInt media_by_mediaid (fst item) = Inr m \<and> file_path_of E m = Inr p \<and>
      file_content E p = Some content \<and> sha256_hexdigest E content \<noteq> sha256 m"
  then show "upload_rep E media_by_mediaid item s =
        (Inl (Exception [Lit ''SHA-256 mismatch: got '',
                         FmtR (VStr (sha256_hexdigest E content)),
                         Lit '' for '', FmtR (VBytes p)] None), s)"
    by (elim conjE) (rule upload_rep_mismatch)
next
  assume u: "upload_rep E media_by_mediaid item s = (q, s1)"
  from upload_rep_outcome [OF u]
  show "put_calls s1 = put_calls s \<or>
        (\<exists>m'. map_of media_by_mediaid (fst item) = Some m' \<and>
           put_calls s1 = put_calls s @ [last (put_calls s1)] \<and>
           sha256_hexdigest E (Body (last (put_calls s1))) = sha256 m')"
  proof
    assume "isl q \<and> s1 = s"
    then show ?thesis by simp
  next
    assume "\<exists>m p content.
        map_of media_by_mediaid (fst item) = Some m \<and> file_path_of E m = Inr p \<and>
        file_content E p = Some content \<and> sha256_hexdigest E content = sha256 m \<and>
        Body (last (put_calls s1)) = content \<and>
        ContentLength (last (put_calls s1)) = int (length content) \<and>
        ContentType (last (put_calls s1)) = media_type (content_type (deref (snd item))) \<and>
        get_bucket_key (deref (snd item)) = Inr (Key (last (put_calls s1))) \<and>
        s1 = s\<lparr>put_calls := put_calls s @ [last (put_calls s1)]\<rparr>"
    then obtain m' where m': "map_of media_by_mediaid (fst item) = Some m'"
        "sha256_hexdigest E (Body (last (put_calls s1))) = sha256 m'"
        and s1: "s1 = s\<lparr>put_calls := put_calls s @ [last (put_calls s1)]\<rparr>"
      by auto
    have "put_calls s1 = put_calls s @ [last (put_calls s1)]"
      by (subst s1) simp
    with m' show ?thesis by blast
  qed
next
  assume "create_reps E r s = (res, s')"
  then show "\<exists>new. put_calls s' = put_calls s @ new \<and>
           (\<forall>req\<in>set new. \<exists>l\<in>set (links r). sha256_hexdigest E (Body req) = sha256 l)"
    by (rule create_reps_put_calls)
qed

lemma ex_corrupt:
  "file_path_of ex_env_corrupt
     \<lparr>sha256 = ex_sha1, file_type = ''png'', attributes = [(''width'', 800), (''height'', 600)]\<rparr>
   = Inr ex_path1"
  "file_content ex_env_corrupt ex_path1 = Some [4, 5]"
  "sha256_hexdigest ex_env_corrupt [4, 5] = ex_sha2"
  "ex_sha2 \<noteq> ex_sha1"
proof -
  have mr: "MEDIA_ROOT ex_env_corrupt = MEDIA_ROOT ex_env"
    by (simp add: ex_env_corrupt_def)
  have "file_path_of ex_env_corrupt m = file_path_of ex_env m" for m
    unfolding file_path_of_def mr ..
  then show "file_path_of ex_env_corrupt
     \<lparr>sha256 = ex_sha1, file_type = ''png'', attributes = [(''width'', 800), (''height'', 600)]\<rparr>
   = Inr ex_path1"
    by (simp add: ex_files(1))
  show "file_content ex_env_corrupt ex_path1 = Some [4, 5]"
    by (simp add: ex_env_corrupt_def)
  show "sha256_hexdigest ex_env_corrupt [4, 5] = ex_sha2"
    by (simp add: ex_env_corrupt_def ex_env_def)
  show "ex_sha2 \<noteq> ex_sha1"
    by (simp add: ex_sha1_def ex_sha2_def)
qed

theorem C8_mismatch_is_never_uploaded_witness:
  "upload_rep ex_env_corrupt
     [(10, \<lparr>sha256 = ex_sha1, file_type = ''png'',
            attributes = [(''width'', 800), (''height'', 600)]\<rparr>)]
     (10, ex_rep1) ex_world
   = (Inl (Exception [Lit ''SHA-256 mismatch: got '', FmtR (VStr ex_sha2),
                      Lit '' for '', FmtR (VBytes ex_path1)] None), ex_world)
   \<and> (\<exists>new. put_calls (snd (create_reps ex_env (ex_row 10 20) ex_world)) = put_calls ex_world @ new \<and>
        list_all (\<lambda>req. \<exists>l\<in>set (links (ex_row 10 20)).
            sha256_hexdigest ex_env (Body req) = sha256 l) new)"
proof -
  let ?m = "\<lparr>sha256 = ex_sha1, file_type = ''png'',
            attributes = [(''width'', 800), (''height'', 600)]\<rparr>"
  have h: "subscript VInt [(10, ?m)] (fst (10 :: int, ex_rep1)) = Inr ?m \<and>
      file_path_of ex_env_corrupt ?m = Inr ex_path1 \<and>
      file_content ex_env_corrupt ex_path1 = Some [4, 5] \<and>
      sha256_hexdigest ex_env_corrupt [4, 5] \<noteq> sha256 ?m"
    by (simp add: subscript_def ex_corrupt)
  have c: "create_reps ex_env (ex_row 10 20) ex_world
      = (fst (create_reps ex_env (ex_row 10 20) ex_world),
         snd (create_reps ex_env (ex_row 10 20) ex_world))"
    by simp
  from C8_mismatch_is_never_uploaded
    [where media_by_mediaid = "[(10, ?m)]" and item = "(10, ex_rep1)" and m = ?m
      and E = ex_env_corrupt and p = ex_path1 and content = "[4, 5]" and s = ex_world]
    h
  have a: "upload_rep ex_env_corrupt [(10, ?m)] (10, ex_rep1) ex_world
   = (Inl (Exception [Lit ''SHA-256 mismatch: got '', FmtR (VStr ex_sha2),
                      Lit '' for '', FmtR (VBytes ex_path1)] None), ex_world)"
    by (simp add: ex_corrupt)
  from C8_mismatch_is_never_uploaded
    [where E = ex_env and r = "ex_row 10 20" and s = ex_world
      and res = "fst (create_reps ex_env (ex_row 10 20) ex_world)"
      and s' = "snd (create_reps ex_env (ex_row 10 20) ex_world)"] c
  have b: "\<exists>new. put_calls (snd (create_reps ex_env (ex_row 10 20) ex_world)) = put_calls ex_world @ new \<and>
        list_all (\<lambda>req. \<exists>l\<in>set (links (ex_row 10 20)).
            sha256_hexdigest ex_env (Body req) = sha256 l) new"
    unfolding list_all_iff by blast
  from a b show ?thesis by (rule conjI)
qed

section \<open>The name in the destination store\<close>

text \<open>
  C9. The destination name of a representation is the URL-safe Base64 encoding of its
  key without padding, followed by the extension of its content type with its leading
  dot: the code's encoding with padding, stripped of \<open>=\<close> and decoded, never raises
  and equals it. The name holds no \<open>=\<close>; for a 16-byte key it is 22 characters and
  the extension, too short to hold the 64 characters of a SHA-256 hex digest; and it is
  the key under which the upload loop stores the item.
\<close>

theorem C9_destination_name:
  "get_bucket_key rep = Inr (spec_name rep)
   \<and> spec_name rep = urlsafe_base64_no_padding (file_key rep) @ extension (content_type rep)
   \<and> extension (content_type rep) =
       (case content_type rep of PNG \<Rightarrow> ''.png'' | JPEG \<Rightarrow> ''.jpg'' | GIF_STATIC \<Rightarrow> ''.gif''
        | WEBP_STATIC \<Rightarrow> ''.webp'')
   \<and> CHR ''='' \<notin> set (urlsafe_base64_no_padding (file_key rep))
   \<and> (length (file_key rep) = 16 \<longrightarrow>
        length (urlsafe_base64_no_padding (file_key rep)) = 22 \<and>
        (\<forall>digest. length digest = 64 \<longrightarrow> \<not> sublist digest (spec_name rep)))
   \<and> (upload_rep E media_by_mediaid (i, Obj a rep) s = (Inr u, s1) \<longrightarrow>
        put_calls s1 = put_calls s @ [last (put_calls s1)] \<and>
        Key (last (put_calls s1)) = spec_name rep)"
proof -
  have name: "get_bucket_key rep = Inr (spec_name rep)"
    by (simp add: get_bucket_key_eq spec_name_def)
  have eq: "CHR ''='' \<notin> set (urlsafe_base64_no_padding (file_key rep))"
    by (rule decode_encoded(3) [OF no_padding_chars])
  have ext: "length (extension (content_type rep)) \<le> 5"
    by (cases "content_type rep") (simp_all add: extension_cases)
  have short: "length (file_key rep) = 16 \<longrightarrow>
        length (urlsafe_base64_no_padding (file_key rep)) = 22 \<and>
        (\<forall>digest. length digest = 64 \<longrightarrow> \<not> sublist digest (spec_name rep))"
  proof
    assume k: "length (file_key rep) = 16"
    then have l: "length (urlsafe_base64_no_padding (file_key rep)) = 22"
      by (simp add: length_no_padding)
    have "\<not> sublist digest (spec_name rep)" if "length digest = 64" for digest
    proof
      assume "sublist digest (spec_name rep)"
      then have "length digest \<le> length (spec_name rep)" by (rule sublist_length_le)
      with that l ext show False by (simp add: spec_name_def)
    qed
    with l show "length (urlsafe_base64_no_padding (file_key rep)) = 22 \<and>
        (\<forall>digest. length digest = 64 \<longrightarrow> \<not> sublist digest (spec_name rep))"
      by blast
  qed
  have up: "upload_rep E media_by_mediaid (i, Obj a rep) s = (Inr u, s1) \<longrightarrow>
        put_calls s1 = put_calls s @ [last (put_calls s1)] \<and>
        Key (last (put_calls s1)) = spec_name rep"
  proof
    assume r: "upload_rep E media_by_mediaid (i, Obj a rep) s = (Inr u, s1)"
    from upload_rep_outcome [OF r]
    have k: "get_bucket_key rep = Inr (Key (last (put_calls s1)))"
      and s1: "s1 = s\<lparr>put_calls := put_calls s @ [last (put_calls s1)]\<rparr>"
      by auto
    have "put_calls s1 = put_calls s @ [last (put_calls s1)]"
      by (subst s1) simp
    with k name show "put_calls s1 = put_calls s @ [last (put_calls s1)] \<and>
        Key (last (put_calls s1)) = spec_name rep"
      by simp
  qed
  from name eq short up show ?thesis
    by (simp add: spec_name_def extension_cases)
qed

theorem C9_destination_name_witness:
  "get_bucket_key (deref ex_rep1) = Inr ''AAECAwQFBgcICQoLDA0ODw.png''
   \<and> spec_name (deref ex_rep1) = ''AAECAwQFBgcICQoLDA0ODw.png''
   \<and> \<not> sublist ex_sha1 (spec_name (deref ex_rep1))"
proof -
  have n: "get_bucket_key (deref ex_rep1) = Inr ''AAECAwQFBgcICQoLDA0ODw.png''"
    by (rule ex_names(1))
  have k: "length (file_key (deref ex_rep1)) = 16" by (simp add: ex_rep1_def)
  have d: "length ex_sha1 = 64" by (simp add: ex_sha1_def)
  note t = C9_destination_name [of "deref ex_rep1"]
  from t n have s: "spec_name (deref ex_rep1) = ''AAECAwQFBgcICQoLDA0ODw.png''" by simp
  from t k d have "\<not> sublist ex_sha1 (spec_name (deref ex_rep1))" by blast
  with n s show ?thesis by blast
qed

section \<open>Roles, objects and the result of create_reps\<close>

lemma links_of_retained:
  assumes "links_of r = Inr ls"
  shows "snd ` set ls = {l \<in> set (links r). link_type l \<in> set known_link_types}"
proof (intro set_eqI iffI)
  fix l assume "l \<in> snd ` set ls"
  then obtain lt where "(lt, l) \<in> set ls" by force
  from links_of_member(1-3) [OF assms this]
  show "l \<in> {l \<in> set (links r). link_type l \<in> set known_link_types}" by simp
next
  fix l assume "l \<in> {l \<in> set (links r). link_type l \<in> set known_link_types}"
  then have "map_of ls (link_type l) = Some l"
    by (intro links_of_Inr(3) [OF assms]) simp_all
  then have "(link_type l, l) \<in> set ls" by (rule map_of_SomeD)
  then show "l \<in> snd ` set ls" by force
qed

lemma resolved_slots:
  assumes ls: "links_of r = Inr ls"
    and rbm: "rep_by_mediaid_of E ls s = (Inr rbm, s1)"
    and reps: "build_reps ls rbm = Inr reps"
    and m1: "(lt1, l1) \<in> set ls" and m2: "(lt2, l2) \<in> set ls"
  shows "slot lt1 reps = map_of rbm (mediaid l1)" and "slot lt1 reps \<noteq> None"
    and "py_is (slot lt1 reps) (slot lt2 reps) \<longleftrightarrow> mediaid l1 = mediaid l2"
proof -
  note k = rep_by_mediaid_of_Inr(8) [OF rbm]
  note d = rep_by_mediaid_of_Inr(2) [OF rbm]
  have s: "slot lt reps = map_of rbm (mediaid l) \<and> map_of rbm (mediaid l) \<noteq> None"
    if "(lt, l) \<in> set ls" for lt l
  proof -
    note m = links_of_member [OF ls that]
    from build_reps_slot [OF k reps m(3)] m(4) resolved_Some [OF m(4) k]
    show ?thesis by (simp add: resolved_def)
  qed
  from s [OF m1] show "slot lt1 reps = map_of rbm (mediaid l1)" "slot lt1 reps \<noteq> None"
    by simp_all
  from s [OF m1] obtain x1 where x1: "slot lt1 reps = Some x1" "map_of rbm (mediaid l1) = Some x1"
    by auto
  from s [OF m2] obtain x2 where x2: "slot lt2 reps = Some x2" "map_of rbm (mediaid l2) = Some x2"
    by auto
  have in1: "(mediaid l1, x1) \<in> set rbm" using x1(2) by (rule map_of_SomeD)
  have in2: "(mediaid l2, x2) \<in> set rbm" using x2(2) by (rule map_of_SomeD)
  have dist: "distinct (map (\<lambda>p. ident (snd p)) rbm)" unfolding d by simp
  show "py_is (slot lt1 reps) (slot lt2 reps) \<longleftrightarrow> mediaid l1 = mediaid l2"
  proof
    assume "py_is (slot lt1 reps) (slot lt2 reps)"
    then have "ident (snd (mediaid l1, x1)) = ident (snd (mediaid l2, x2))"
      by (simp add: py_is_def x1 x2)
    from ident_inj [OF dist in1 in2 this] show "mediaid l1 = mediaid l2" by simp
  next
    assume "mediaid l1 = mediaid l2"
    with x1 x2 show "py_is (slot lt1 reps) (slot lt2 reps)" by (simp add: py_is_def)
  qed
qed

lemma lookup_by_loop_success:
  "distinct (map key_func xs) \<Longrightarrow> key_func ` set xs \<inter> fst ` set acc = {} \<Longrightarrow>
     lookup_by_loop xs key_func acc = Inr (acc @ map (\<lambda>x. (key_func x, x)) xs)"
proof (induction xs arbitrary: acc)
  case Nil
  then show ?case by simp
next
  case (Cons x xs)
  from Cons.prems(2) have fresh: "map_of acc (key_func x) = None"
    by (auto simp: map_of_eq_None_iff)
  have d: "distinct (map key_func xs)" using Cons.prems(1) by simp
  have j: "key_func ` set xs \<inter> fst ` set (acc @ [(key_func x, x)]) = {}"
    using Cons.prems by auto
  from Cons.IH [OF d j] fresh show ?case
    by (simp add: Let_def update_fresh)
qed

lemma links_of_success:
  assumes "distinct (map link_type (links r))"
  shows "\<exists>ls. links_of r = Inr ls"
  using lookup_by_loop_success [of link_type "links r" "[]"] assms
  by (simp add: links_of_def lookup_by_def)

lemma links_of_absent_iff:
  assumes "links_of r = Inr ls" "lt \<in> set known_link_types"
  shows "map_of ls lt = None \<longleftrightarrow> lt \<notin> link_type ` set (links r)"
proof
  assume n: "map_of ls lt = None"
  show "lt \<notin> link_type ` set (links r)"
  proof
    assume "lt \<in> link_type ` set (links r)"
    then obtain l where "l \<in> set (links r)" "link_type l = lt" by auto
    with links_of_Inr(3) [OF assms(1) assms(2)] have "map_of ls lt = Some l" by simp
    with n show False by simp
  qed
next
  assume n: "lt \<notin> link_type ` set (links r)"
  show "map_of ls lt = None"
  proof (cases "map_of ls lt")
    case None
    then show ?thesis .
  next
    case (Some l)
    with links_of_Inr(2) [OF assms(1)] have "l \<in> set (links r)" "link_type l = lt"
      by simp_all
    with n show ?thesis by auto
  qed
qed

lemma retained_set: "links_of r = Inr ls \<Longrightarrow> snd ` set ls = set (retained r)"
  by (auto simp: links_of_retained retained_def)

lemma rep_from_media_success:
  assumes "buildable m"
  shows "\<exists>x s'. rep_from_media E m s = (Inr x, s')"
proof -
  from assms obtain ct w h where ct: "map_of IMAGE_CONTENT_TYPES (file_type m) = Some ct"
    and w: "map_of (attributes m) ''width'' = Some w" "1 \<le> w" "w \<le> 16383"
    and h: "map_of (attributes m) ''height'' = Some h" "1 \<le> h" "h \<le> 16383"
    by (auto simp: buildable_def split: option.splits)
  then show ?thesis
    by (simp add: rep_from_media_def subscript_def token_bytes_def ImageRepresentation_init_def
        FILE_KEY_LENGTH_def)
qed

lemma map_values_loop_success:
  "\<forall>p\<in>set d. buildable (snd p) \<Longrightarrow>
     \<exists>res s'. map_values_loop (rep_from_media E) d acc s = (Inr res, s')"
proof (induction d arbitrary: acc s)
  case Nil
  then show ?case by simp
next
  case (Cons kv d)
  obtain k v where kv: "kv = (k, v)" by (cases kv)
  with Cons.prems have "buildable v" by simp
  from rep_from_media_success [OF this] obtain x s1 where
    x: "rep_from_media E v s = (Inr x, s1)" by blast
  from Cons.prems have "\<forall>p\<in>set d. buildable (snd p)" by simp
  from Cons.IH [OF this] obtain res s' where
    "map_values_loop (rep_from_media E) d (AList.update k x acc) s1 = (Inr res, s')"
    by blast
  with x kv show ?case by simp
qed

lemma b64_chars_ascii:
  "list_all (\<lambda>i. unat (b64_char i) < 128) [0..<64]"
  by (simp add: upt_conv_Cons b64_char_def b64_table_def)

lemma b64encode_ascii: "list_all (\<lambda>x. unat x < 128) (b64encode bs)"
proof -
  have c: "unat (b64_char i) < 128" if "i < 64" for i
    using b64_chars_ascii that unfolding list_all_iff by auto
  show ?thesis
    by (induction bs rule: b64encode.induct) (simp_all add: c idx_bounds)
qed

lemma upload_rep_success:
  assumes "map_of media_by_mediaid i = Some m" "transferable E m"
    and "\<forall>req. put_object_error E req = None"
  shows "\<exists>s'. upload_rep E media_by_mediaid (i, x) s = (Inr (), s')"
proof -
  from assms(2) obtain p content where p: "file_path_of E m = Inr p"
    and c: "file_content E p = Some content"
    and d: "sha256_hexdigest E content = sha256 m"
    by (auto simp: transferable_def split: sum.splits option.splits)
  have md5: "decode_ascii (b64encode bs) = Inr (map (\<lambda>x. char_of (unat x)) (b64encode bs))" for bs
    by (simp add: decode_ascii_def b64encode_ascii)
  show ?thesis
    using assms(1,3) p c d
    by (simp add: upload_rep_def subscript_def read_chunks_eq md5 get_bucket_key_eq
        put_object_def)
qed

lemma upload_all_success:
  assumes "\<forall>req. put_object_error E req = None"
  shows "\<forall>item\<in>set items. \<exists>m. map_of media_by_mediaid (fst item) = Some m \<and> transferable E m \<Longrightarrow>
     \<exists>s'. upload_all E media_by_mediaid items s = (Inr (), s')"
proof (induction items arbitrary: s)
  case Nil
  then show ?case by simp
next
  case (Cons item items)
  obtain i x where item: "item = (i, x)" by (cases item)
  from Cons.prems item obtain m where "map_of media_by_mediaid i = Some m" "transferable E m"
    by auto
  from upload_rep_success [OF this assms] obtain s1 where
    u: "upload_rep E media_by_mediaid (i, x) s = (Inr (), s1)" by blast
  from Cons.prems have "\<forall>item\<in>set items. \<exists>m. map_of media_by_mediaid (fst item) = Some m
      \<and> transferable E m" by simp
  from Cons.IH [OF this] obtain s' where "upload_all E media_by_mediaid items s1 = (Inr (), s')"
    by blast
  with u item show ?case by simp
qed

lemma create_reps_returns:
  assumes res: "resolvable E r" and store: "\<forall>req. put_object_error E req = None"
  shows "\<exists>reps n s'. create_reps E r s = (Inr (reps, n), s')"
proof -
  from res have dist: "distinct (map link_type (links r))"
    and req: "\<forall>lt\<in>set required_link_types. lt \<in> link_type ` set (links r)"
    and ok: "\<forall>l\<in>set (retained r). buildable (media.truncate l) \<and> transferable E (media.truncate l)"
    by (simp_all add: resolvable_def list_all_iff)
  from links_of_success [OF dist] obtain ls where ls: "links_of r = Inr ls" by blast
  note rs = retained_set [OF ls]
  have mb: "buildable m \<and> transferable E m" if "(i, m) \<in> set (media_by_mediaid_of ls)" for i m
  proof -
    from media_by_mediaid_of_props(3) [OF that] obtain l where
      "l \<in> snd ` set ls" "m = media.truncate l" by blast
    with ok rs show ?thesis by simp
  qed
  then have "\<forall>p\<in>set (media_by_mediaid_of ls). buildable (snd p)" by auto
  from map_values_loop_success [OF this] obtain rbm s1 where
    rbm: "rep_by_mediaid_of E ls s = (Inr rbm, s1)"
    unfolding rep_by_mediaid_of_def map_values_def by blast
  note k = rep_by_mediaid_of_Inr(8) [OF rbm]
  have present: "map_of ls lt \<noteq> None" if "lt \<in> set required_link_types" for lt
  proof -
    from that have "lt \<in> set known_link_types"
      by (auto simp: required_link_types_def known_link_types_def)
    from links_of_absent_iff [OF ls this] req that show ?thesis by simp
  qed
  have "map_of ls ''submission'' \<noteq> None" "map_of ls ''cover'' \<noteq> None"
    "map_of ls ''thumbnail-generated'' \<noteq> None"
    by (rule present, simp add: required_link_types_def)+
  then obtain reps where reps: "build_reps ls rbm = Inr reps"
    by (simp add: build_reps_outcome [OF k])
  have "\<exists>m. map_of (media_by_mediaid_of ls) (fst item) = Some m \<and> transferable E m"
    if "item \<in> set rbm" for item
  proof -
    from that have "fst item \<in> fst ` set rbm" by simp
    also have "fst ` set rbm = fst ` set (media_by_mediaid_of ls)"
      unfolding k by (simp add: media_by_mediaid_of_props(2))
    finally obtain m where m: "(fst item, m) \<in> set (media_by_mediaid_of ls)" by auto
    with media_by_mediaid_of_props(1) [of ls]
    have "map_of (media_by_mediaid_of ls) (fst item) = Some m" by simp
    with mb [OF m] show ?thesis by simp
  qed
  then have "\<forall>item\<in>set rbm. \<exists>m. map_of (media_by_mediaid_of ls) (fst item) = Some m
      \<and> transferable E m" by blast
  from upload_all_success [OF store this] obtain s' where
    "upload_all E (media_by_mediaid_of ls) rbm s1 = (Inr (), s')" by blast
  with ls rbm reps show ?thesis by (simp add: create_reps_def)
qed

lemma create_reps_objects:
  assumes "create_reps E r s = (Inr (reps, n), s')"
  shows "\<exists>ls rbm s1.
      links_of r = Inr ls
    \<and> snd ` set ls = {l \<in> set (links r). link_type l \<in> set known_link_types}
    \<and> rep_by_mediaid_of E ls s = (Inr rbm, s1)
    \<and> distinct (map fst rbm) \<and> fst ` set rbm = mediaid ` snd ` set ls
    \<and> distinct (map (\<lambda>p. ident (snd p)) rbm)
    \<and> n = int (length rbm) \<and> n = int (card (mediaid ` snd ` set ls))
    \<and> objects_made s' = objects_made s + card (mediaid ` snd ` set ls)
    \<and> (\<forall>(lt1, l1)\<in>set ls. \<forall>(lt2, l2)\<in>set ls.
          slot lt1 reps = map_of rbm (mediaid l1) \<and> slot lt1 reps \<noteq> None
          \<and> (py_is (slot lt1 reps) (slot lt2 reps) \<longleftrightarrow> mediaid l1 = mediaid l2))"
proof -
  from create_reps_Inr [OF assms] obtain ls rbm s1 where
    ls: "links_of r = Inr ls" and rbm: "rep_by_mediaid_of E ls s = (Inr rbm, s1)"
    and reps: "build_reps ls rbm = Inr reps"
    and up: "upload_all E (media_by_mediaid_of ls) rbm s1 = (Inr (), s')"
    and n: "n = int (length rbm)"
    by auto
  note p = rep_by_mediaid_of_Inr [OF rbm]
  have dist: "distinct (map (\<lambda>p. ident (snd p)) rbm)" unfolding p(2) by simp
  have objs: "objects_made s' = objects_made s + card (mediaid ` snd ` set ls)"
    using upload_all_frame [OF up] p(3) by simp
  have slots: "\<forall>(lt1, l1)\<in>set ls. \<forall>(lt2, l2)\<in>set ls.
          slot lt1 reps = map_of rbm (mediaid l1) \<and> slot lt1 reps \<noteq> None
          \<and> (py_is (slot lt1 reps) (slot lt2 reps) \<longleftrightarrow> mediaid l1 = mediaid l2)"
    using resolved_slots [OF ls rbm reps] by blast
  from ls links_of_retained [OF ls] rbm p(7) p(8) dist n p(6) objs slots
  show ?thesis by (intro exI [of _ ls] exI [of _ rbm] exI [of _ s1]) simp
qed

lemma rep_by_mediaid_of_success:
  assumes ls: "links_of r = Inr ls"
    and ok: "list_all (\<lambda>l. buildable (media.truncate l)) (retained r)"
  shows "\<exists>rbm s1. rep_by_mediaid_of E ls s = (Inr rbm, s1)"
proof -
  note rs = retained_set [OF ls]
  have "buildable (snd p)" if "p \<in> set (media_by_mediaid_of ls)" for p
  proof -
    from that have "(fst p, snd p) \<in> set (media_by_mediaid_of ls)" by simp
    from media_by_mediaid_of_props(3) [OF this] obtain l where
      "l \<in> snd ` set ls" "snd p = media.truncate l" by blast
    with ok rs show ?thesis by (simp add: list_all_iff)
  qed
  then have "\<forall>p\<in>set (media_by_mediaid_of ls). buildable (snd p)" by blast
  from map_values_loop_success [OF this] show ?thesis
    unfolding rep_by_mediaid_of_def map_values_def by blast
qed

lemma rep_by_mediaid_of_grouped:
  assumes dist: "distinct (map link_type (links r))"
    and ok: "list_all (\<lambda>l. buildable (media.truncate l)) (retained r)"
  shows "\<exists>ls rbm s1.
      links_of r = Inr ls \<and> rep_by_mediaid_of E ls s = (Inr rbm, s1)
      \<and> distinct (map fst rbm) \<and> fst ` set rbm = mediaid ` set (retained r)
      \<and> distinct (map (\<lambda>p. ident (snd p)) rbm)
      \<and> length rbm = card (mediaid ` set (retained r))
      \<and> objects_made s1 = objects_made s + card (mediaid ` set (retained r))"
proof -
  from links_of_success [OF dist] obtain ls where ls: "links_of r = Inr ls" by blast
  from rep_by_mediaid_of_success [OF ls ok] obtain rbm s1 where
    rbm: "rep_by_mediaid_of E ls s = (Inr rbm, s1)" by blast
  note p = rep_by_mediaid_of_Inr [OF rbm]
  note rs = retained_set [OF ls]
  have di: "distinct (map (\<lambda>p. ident (snd p)) rbm)"
    unfolding p(2) by simp
  from ls rbm p(7) p(8) di p(6) p(3) rs show ?thesis
    by (intro exI [of _ ls] exI [of _ rbm] exI [of _ s1]) simp
qed

lemma create_reps_resolved:
  assumes res: "resolvable E r" and store: "\<forall>req. put_object_error E req = None"
  shows "\<exists>reps s'.
      create_reps E r s = (Inr (reps, int (card (mediaid ` set (retained r)))), s')
      \<and> objects_made s' = objects_made s + card (mediaid ` set (retained r))
      \<and> (\<forall>l1\<in>set (retained r). \<forall>l2\<in>set (retained r).
            slot (link_type l1) reps \<noteq> None
            \<and> (py_is (slot (link_type l1) reps) (slot (link_type l2) reps)
                 \<longleftrightarrow> mediaid l1 = mediaid l2))"
proof -
  from create_reps_returns [OF res store] obtain reps n s' where
    run: "create_reps E r s = (Inr (reps, n), s')" by blast
  from create_reps_objects [OF run] obtain ls rbm s1 where
    ls: "links_of r = Inr ls"
    and n: "n = int (card (mediaid ` snd ` set ls))"
    and objs: "objects_made s' = objects_made s + card (mediaid ` snd ` set ls)"
    and slots: "\<forall>(lt1, l1)\<in>set ls. \<forall>(lt2, l2)\<in>set ls.
          slot lt1 reps = map_of rbm (mediaid l1) \<and> slot lt1 reps \<noteq> None
          \<and> (py_is (slot lt1 reps) (slot lt2 reps) \<longleftrightarrow> mediaid l1 = mediaid l2)"
    by blast
  note rs = retained_set [OF ls]
  have mem: "(link_type l, l) \<in> set ls" if "l \<in> set (retained r)" for l
  proof -
    from that rs obtain lt where m: "(lt, l) \<in> set ls" by force
    from links_of_member(2) [OF ls m] m show ?thesis by simp
  qed
  have "slot (link_type l1) reps \<noteq> None
      \<and> (py_is (slot (link_type l1) reps) (slot (link_type l2) reps) \<longleftrightarrow> mediaid l1 = mediaid l2)"
    if "l1 \<in> set (retained r)" "l2 \<in> set (retained r)" for l1 l2
    using slots mem [OF that(1)] mem [OF that(2)] by fastforce
  with run n objs rs show ?thesis by simp
qed

lemma ex_transferable:
  "buildable \<lparr>sha256 = ex_sha1, file_type = ''png'',
      attributes = [(''width'', 800), (''height'', 600)]\<rparr>"
  "transferable ex_env \<lparr>sha256 = ex_sha1, file_type = ''png'',
      attributes = [(''width'', 800), (''height'', 600)]\<rparr>"
  "buildable \<lparr>sha256 = ex_sha2, file_type = ''jpg'',
      attributes = [(''width'', 200), (''height'', 150)]\<rparr>"
  "transferable ex_env \<lparr>sha256 = ex_sha2, file_type = ''jpg'',
      attributes = [(''width'', 200), (''height'', 150)]\<rparr>"
  by (simp_all add: buildable_def transferable_def IMAGE_CONTENT_TYPES_def ex_files)

lemma ex_resolvable:
  "resolvable ex_env ex_row_shared"
  "resolvable ex_env (ex_row 10 20)"
  by (simp_all add: resolvable_def retained_def known_link_types_def required_link_types_def
      ex_row_shared_def ex_row_def ex_link_def media.truncate_def ex_transferable)

text \<open>
  C5. On every row whose links have pairwise different types, include the three required
  roles, and whose retained links are buildable and transferable (the object store
  accepting), \<open>create_reps\<close> returns; the count it returns is the number of distinct
  media ids among the retained links; exactly that many representation objects were
  created; and two retained roles hold the same object exactly when their links share a
  media id. On every row whose links have pairwise different types and whose retained
  links are buildable, whether or not the required roles are there, the mapping
  \<open>rep_by_mediaid\<close> is built, with exactly one entry and one distinct object per
  distinct media id of the retained links. Moreover, whenever \<open>create_reps\<close> returns,
  the retained links are the row's links of the five known types, the mapping has exactly
  one entry and one distinct object per distinct media id, every retained role's slot
  holds the object of its link's media id, and the returned count is the number of
  distinct media ids.
\<close>

theorem C5_one_representation_per_media_item:
  "(resolvable E r \<and> (\<forall>req. put_object_error E req = None) \<longrightarrow>
      (\<exists>reps s'.
         create_reps E r s = (Inr (reps, int (card (mediaid ` set (retained r)))), s')
         \<and> objects_made s' = objects_made s + card (mediaid ` set (retained r))
         \<and> (\<forall>l1\<in>set (retained r). \<forall>l2\<in>set (retained r).
               slot (link_type l1) reps \<noteq> None
               \<and> (py_is (slot (link_type l1) reps) (slot (link_type l2) reps)
                    \<longleftrightarrow> mediaid l1 = mediaid l2))))
   \<and> (distinct (map link_type (links r))
        \<and> list_all (\<lambda>l. buildable (media.truncate l)) (retained r) \<longrightarrow>
      (\<exists>ls rbm s1.
         links_of r = Inr ls \<and> rep_by_mediaid_of E ls s = (Inr rbm, s1)
         \<and> distinct (map fst rbm) \<and> fst ` set rbm = mediaid ` set (retained r)
         \<and> distinct (map (\<lambda>p. ident (snd p)) rbm)
         \<and> length rbm = card (mediaid ` set (retained r))
         \<and> objects_made s1 = objects_made s + card (mediaid ` set (retained r))))
   \<and> (create_reps E r s = (Inr (reps0, n), s0) \<longrightarrow>
      (\<exists>ls rbm s1.
          links_of r = Inr ls
        \<and> snd ` set ls = {l \<in> set (links r). link_type l \<in> set known_link_types}
        \<and> rep_by_mediaid_of E ls s = (Inr rbm, s1)
        \<and> distinct (map fst rbm) \<and> fst ` set rbm = mediaid ` snd ` set ls
        \<and> distinct (map (\<lambda>p. ident (snd p)) rbm)
        \<and> n = int (length rbm) \<and> n = int (card (mediaid ` snd ` set ls))
        \<and> objects_made s0 = objects_made s + card (mediaid ` snd ` set ls)
        \<and> (\<forall>(lt1, l1)\<in>set ls. \<forall>(lt2, l2)\<in>set ls.
              slot lt1 reps0 = map_of rbm (mediaid l1) \<and> slot lt1 reps0 \<noteq> None
              \<and> (py_is (slot lt1 reps0) (slot lt2 reps0) \<longleftrightarrow> mediaid l1 = mediaid l2))))"
proof (intro conjI impI)
  assume "resolvable E r \<and> (\<forall>req. put_object_error E req = None)"
  then have res: "resolvable E r" and store: "\<forall>req. put_object_error E req = None"
    by simp_all
  show "\<exists>reps s'.
         create_reps E r s = (Inr (reps, int (card (mediaid ` set (retained r)))), s')
         \<and> objects_made s' = objects_made s + card (mediaid ` set (retained r))
         \<and> (\<forall>l1\<in>set (retained r). \<forall>l2\<in>set (retained r).
               slot (link_type l1) reps \<noteq> None
               \<and> (py_is (slot (link_type l1) reps) (slot (link_type l2) reps)
                    \<longleftrightarrow> mediaid l1 = mediaid l2))"
    by (rule create_reps_resolved [OF res store])
next
  assume "distinct (map link_type (links r))
        \<and> list_all (\<lambda>l. buildable (media.truncate l)) (retained r)"
  then have dist: "distinct (map link_type (links r))"
    and ok: "list_all (\<lambda>l. buildable (media.truncate l)) (retained r)"
    by simp_all
  show "\<exists>ls rbm s1.
         links_of r = Inr ls \<and> rep_by_mediaid_of E ls s = (Inr rbm, s1)
         \<and> distinct (map fst rbm) \<and> fst ` set rbm = mediaid ` set (retained r)
         \<and> distinct (map (\<lambda>p. ident (snd p)) rbm)
         \<and> length rbm = card (mediaid ` set (retained r))
         \<and> objects_made s1 = objects_made s + card (mediaid ` set (retained r))"
    by (rule rep_by_mediaid_of_grouped [OF dist ok])
next
  assume "create_reps E r s = (Inr (reps0, n), s0)"
  then show "\<exists>ls rbm s1.
          links_of r = Inr ls
        \<and> snd ` set ls = {l \<in> set (links r). link_type l \<in> set known_link_types}
        \<and> rep_by_mediaid_of E ls s = (Inr rbm, s1)
        \<and> distinct (map fst rbm) \<and> fst ` set rbm = mediaid ` snd ` set ls
        \<and> distinct (map (\<lambda>p. ident (snd p)) rbm)
        \<and> n = int (length rbm) \<and> n = int (card (mediaid ` snd ` set ls))
        \<and> objects_made s0 = objects_made s + card (mediaid ` snd ` set ls)
        \<and> (\<forall>(lt1, l1)\<in>set ls. \<forall>(lt2, l2)\<in>set ls.
              slot lt1 reps0 = map_of rbm (mediaid l1) \<and> slot lt1 reps0 \<noteq> None
              \<and> (py_is (slot lt1 reps0) (slot lt2 reps0) \<longleftrightarrow> mediaid l1 = mediaid l2))"
    by (rule create_reps_objects)
qed

theorem C5_one_representation_per_media_item_witness:
  "resolvable ex_env ex_row_shared
   \<and> (\<exists>reps s'. create_reps ex_env ex_row_shared ex_world = (Inr (reps, 1), s')
         \<and> objects_made s' = 1
         \<and> py_is (original reps) (cover reps)
         \<and> py_is (original reps) (thumbnail_generated reps))
   \<and> (\<exists>reps s'. create_reps ex_env (ex_row 10 20) ex_world = (Inr (reps, 2), s')
         \<and> objects_made s' = 2
         \<and> py_is (original reps) (cover reps)
         \<and> \<not> py_is (original reps) (thumbnail_generated reps))
   \<and> (\<exists>ls rbm s1.
         links_of \<lparr>submitid = 3, links = [ex_link ''submission'' 10 ex_sha1 ''png'' 800 600,
            ex_link ''thumbnail-custom'' 10 ex_sha1 ''png'' 800 600]\<rparr> = Inr ls
         \<and> rep_by_mediaid_of ex_env ls ex_world = (Inr rbm, s1)
         \<and> length rbm = 1 \<and> objects_made s1 = 1)
   \<and> (\<exists>ls. links_of (ex_row 10 20) = Inr ls \<and> (2 :: int) = int (card (mediaid ` snd ` set ls)))"
proof -
  have store: "\<forall>req. put_object_error ex_env req = None"
    by (simp add: ex_files)
  have sl: "slot ''submission'' reps = original reps" "slot ''cover'' reps = cover reps"
    "slot ''thumbnail-generated'' reps = thumbnail_generated reps" for reps
    by (simp_all add: slot_def)
  have r1: "retained ex_row_shared =
      [ex_link ''submission'' 10 ex_sha1 ''png'' 800 600,
       ex_link ''cover'' 10 ex_sha1 ''png'' 800 600,
       ex_link ''thumbnail-generated'' 10 ex_sha1 ''png'' 800 600]"
    by (simp add: retained_def ex_row_shared_def known_link_types_def ex_link_def)
  have r2: "retained (ex_row 10 20) =
      [ex_link ''submission'' 10 ex_sha1 ''png'' 800 600,
       ex_link ''cover'' 10 ex_sha1 ''png'' 800 600,
       ex_link ''thumbnail-generated'' 20 ex_sha2 ''jpg'' 200 150]"
    by (simp add: retained_def ex_row_def known_link_types_def ex_link_def)
  have lt: "link_type (ex_link t i d f w h) = t" "mediaid (ex_link t i d f w h) = i"
    for t i d f w h
    by (simp_all add: ex_link_def)
  note t1 = C5_one_representation_per_media_item [where E = ex_env and r = ex_row_shared
      and s = ex_world, THEN conjunct1, THEN mp, OF conjI [OF ex_resolvable(1) store]]
  from t1 obtain reps s' where
    a: "create_reps ex_env ex_row_shared ex_world
          = (Inr (reps, int (card (mediaid ` set (retained ex_row_shared)))), s')"
      "objects_made s' = objects_made ex_world + card (mediaid ` set (retained ex_row_shared))"
      "\<forall>l1\<in>set (retained ex_row_shared). \<forall>l2\<in>set (retained ex_row_shared).
          slot (link_type l1) reps \<noteq> None
          \<and> (py_is (slot (link_type l1) reps) (slot (link_type l2) reps)
               \<longleftrightarrow> mediaid l1 = mediaid l2)"
    by (elim exE conjE) (rule that)
  from a have one: "\<exists>reps s'. create_reps ex_env ex_row_shared ex_world = (Inr (reps, 1), s')
         \<and> objects_made s' = 1
         \<and> py_is (original reps) (cover reps)
         \<and> py_is (original reps) (thumbnail_generated reps)"
    unfolding r1 by (intro exI [of _ reps] exI [of _ s']) (simp add: lt sl ex_world_def)
  note t2 = C5_one_representation_per_media_item [where E = ex_env and r = "ex_row 10 20"
      and s = ex_world, THEN conjunct1, THEN mp, OF conjI [OF ex_resolvable(2) store]]
  from t2 obtain reps2 s2 where
    b: "create_reps ex_env (ex_row 10 20) ex_world
          = (Inr (reps2, int (card (mediaid ` set (retained (ex_row 10 20))))), s2)"
      "objects_made s2 = objects_made ex_world + card (mediaid ` set (retained (ex_row 10 20)))"
      "\<forall>l1\<in>set (retained (ex_row 10 20)). \<forall>l2\<in>set (retained (ex_row 10 20)).
          slot (link_type l1) reps2 \<noteq> None
          \<and> (py_is (slot (link_type l1) reps2) (slot (link_type l2) reps2)
               \<longleftrightarrow> mediaid l1 = mediaid l2)"
    by (elim exE conjE) (rule that)
  from b have two: "\<exists>reps s'. create_reps ex_env (ex_row 10 20) ex_world = (Inr (reps, 2), s')
         \<and> objects_made s' = 2
         \<and> py_is (original reps) (cover reps)
         \<and> \<not> py_is (original reps) (thumbnail_generated reps)"
    unfolding r2 by (intro exI [of _ reps2] exI [of _ s2]) (simp add: lt sl ex_world_def)
  let ?r = "\<lparr>submitid = 3, links = [ex_link ''submission'' 10 ex_sha1 ''png'' 800 600,
            ex_link ''thumbnail-custom'' 10 ex_sha1 ''png'' 800 600]\<rparr>"
  have r3: "retained ?r = [ex_link ''submission'' 10 ex_sha1 ''png'' 800 600,
            ex_link ''thumbnail-custom'' 10 ex_sha1 ''png'' 800 600]"
    by (simp add: retained_def known_link_types_def ex_link_def)
  have pre: "distinct (map link_type (links ?r))
        \<and> list_all (\<lambda>l. buildable (media.truncate l)) (retained ?r)"
    unfolding r3 by (simp add: ex_link_def media.truncate_def ex_transferable)
  note t3 = C5_one_representation_per_media_item [where E = ex_env and r = ?r
      and s = ex_world, THEN conjunct2, THEN conjunct1, THEN mp, OF pre]
  from t3 obtain ls rbm s1 where
    g: "links_of ?r = Inr ls" "rep_by_mediaid_of ex_env ls ex_world = (Inr rbm, s1)"
      "length rbm = card (mediaid ` set (retained ?r))"
      "objects_made s1 = objects_made ex_world + card (mediaid ` set (retained ?r))"
    by (elim exE conjE) (rule that)
  from g have three: "\<exists>ls rbm s1. links_of ?r = Inr ls
         \<and> rep_by_mediaid_of ex_env ls ex_world = (Inr rbm, s1)
         \<and> length rbm = 1 \<and> objects_made s1 = 1"
    unfolding r3 by (intro exI [of _ ls] exI [of _ rbm] exI [of _ s1]) (simp add: lt ex_world_def)
  have run: "create_reps ex_env (ex_row 10 20) ex_world
     = (Inr (ex_reps, 2), \<lparr>entropy_used = 32, objects_made = 2, put_calls = [ex_put1, ex_put2]\<rparr>)"
    by (rule ex_create_reps) simp
  note t4 = C5_one_representation_per_media_item [where E = ex_env and r = "ex_row 10 20"
      and s = ex_world, THEN conjunct2, THEN conjunct2, THEN mp, OF run]
  from t4 obtain ls4 where "links_of (ex_row 10 20) = Inr ls4"
    "(2 :: int) = int (card (mediaid ` snd ` set ls4))"
    by (elim exE conjE) (rule that)
  then have four: "\<exists>ls. links_of (ex_row 10 20) = Inr ls
      \<and> (2 :: int) = int (card (mediaid ` snd ` set ls))"
    by (intro exI [of _ ls4]) simp
  show ?thesis
    by (rule conjI [OF ex_resolvable(1) conjI [OF one conjI [OF two conjI [OF three four]]]])
qed

lemma create_reps_optional:
  assumes ls: "links_of r = Inr ls" and run: "create_reps E r s = (Inr (reps, n), s')"
  shows "map_of ls ''submission'' \<noteq> None \<and> map_of ls ''cover'' \<noteq> None
      \<and> map_of ls ''thumbnail-generated'' \<noteq> None
      \<and> (map_of ls ''thumbnail-custom'' = None \<longrightarrow>
            thumbnail_custom reps = None \<and> \<not> bit (included_mask reps) 2)
      \<and> (map_of ls ''thumbnail-generated-webp'' = None \<longrightarrow>
            thumbnail_generated_webp reps = None \<and> \<not> bit (included_mask reps) 5)"
proof -
  from create_reps_Inr [OF run] ls obtain rbm s1 where
    rbm: "rep_by_mediaid_of E ls s = (Inr rbm, s1)" and reps: "build_reps ls rbm = Inr reps"
    by auto
  note k = rep_by_mediaid_of_Inr(8) [OF rbm]
  from reps have p: "map_of ls ''submission'' \<noteq> None" "map_of ls ''cover'' \<noteq> None"
      "map_of ls ''thumbnail-generated'' \<noteq> None"
    and r: "reps = ImageRepresentations_init (resolved ls rbm ''submission'')
                  (resolved ls rbm ''cover'') (resolved ls rbm ''thumbnail-custom'')
                  (resolved ls rbm ''thumbnail-generated'')
                  (resolved ls rbm ''thumbnail-generated-webp'')"
    unfolding build_reps_outcome [OF k] by (auto split: if_splits)
  have tc: "thumbnail_custom reps = resolved ls rbm ''thumbnail-custom''"
    and tw: "thumbnail_generated_webp reps = resolved ls rbm ''thumbnail-generated-webp''"
    unfolding r by (simp_all add: ImageRepresentations_init_def Let_def)
  from p tc tw show ?thesis
    by (simp add: included_mask_bits resolved_def)
qed

lemma create_reps_first_missing:
  assumes ls: "links_of r = Inr ls" and rbm: "rep_by_mediaid_of E ls s = (Inr rbm, s1)"
    and miss: "map_of ls ''submission'' = None \<or> map_of ls ''cover'' = None
      \<or> map_of ls ''thumbnail-generated'' = None"
  shows "create_reps E r s =
        (Inl (Exception [Lit ''Required key not found in '', FmtR (VLinks ls)]
                (Some (KeyError (VStr
                   (if map_of ls ''submission'' = None then ''submission''
                    else if map_of ls ''cover'' = None then ''cover''
                    else ''thumbnail-generated''))))), s1)"
proof -
  note k = rep_by_mediaid_of_Inr(8) [OF rbm]
  have c: "create_reps E r s = (Inl e, s1)" if "build_reps ls rbm = Inl e" for e
    using that by (simp add: create_reps_def ls rbm)
  have "build_reps ls rbm =
        Inl (Exception [Lit ''Required key not found in '', FmtR (VLinks ls)]
                (Some (KeyError (VStr
                   (if map_of ls ''submission'' = None then ''submission''
                    else if map_of ls ''cover'' = None then ''cover''
                    else ''thumbnail-generated'')))))"
    using miss unfolding build_reps_outcome [OF k] by auto
  then show ?thesis by (rule c)
qed

lemma create_reps_optional_absent:
  assumes res: "resolvable E r" and store: "\<forall>req. put_object_error E req = None"
  shows "\<exists>reps n s'. create_reps E r s = (Inr (reps, n), s')
      \<and> (thumbnail_custom reps = None \<longleftrightarrow> ''thumbnail-custom'' \<notin> link_type ` set (links r))
      \<and> (bit (included_mask reps) 2 \<longleftrightarrow> ''thumbnail-custom'' \<in> link_type ` set (links r))
      \<and> (thumbnail_generated_webp reps = None
            \<longleftrightarrow> ''thumbnail-generated-webp'' \<notin> link_type ` set (links r))
      \<and> (bit (included_mask reps) 5
            \<longleftrightarrow> ''thumbnail-generated-webp'' \<in> link_type ` set (links r))"
proof -
  from create_reps_returns [OF res store] obtain reps n s' where
    run: "create_reps E r s = (Inr (reps, n), s')" by blast
  from create_reps_Inr [OF run] obtain ls rbm s1 where
    ls: "links_of r = Inr ls" and rbm: "rep_by_mediaid_of E ls s = (Inr rbm, s1)"
    and reps: "build_reps ls rbm = Inr reps"
    by auto
  note k = rep_by_mediaid_of_Inr(8) [OF rbm]
  have known: "''thumbnail-custom'' \<in> set known_link_types"
    "''thumbnail-generated-webp'' \<in> set known_link_types"
    by (simp_all add: known_link_types_def)
  have tc: "thumbnail_custom reps = resolved ls rbm ''thumbnail-custom''"
    using build_reps_slot [OF k reps known(1)] by (simp add: slot_def)
  have tw: "thumbnail_generated_webp reps = resolved ls rbm ''thumbnail-generated-webp''"
    using build_reps_slot [OF k reps known(2)] by (simp add: slot_def)
  have r: "resolved ls rbm lt = None \<longleftrightarrow> map_of ls lt = None" for lt
  proof (cases "map_of ls lt")
    case None
    then show ?thesis by (simp add: resolved_def)
  next
    case (Some l)
    with resolved_Some [OF Some k] show ?thesis by (simp add: resolved_def)
  qed
  have c: "thumbnail_custom reps = None \<longleftrightarrow> ''thumbnail-custom'' \<notin> link_type ` set (links r)"
    unfolding tc r by (rule links_of_absent_iff [OF ls known(1)])
  have w: "thumbnail_generated_webp reps = None
      \<longleftrightarrow> ''thumbnail-generated-webp'' \<notin> link_type ` set (links r)"
    unfolding tw r by (rule links_of_absent_iff [OF ls known(2)])
  have b2: "bit (included_mask reps) 2 \<longleftrightarrow> ''thumbnail-custom'' \<in> link_type ` set (links r)"
    using c by (simp add: included_mask_bits)
  have b5: "bit (included_mask reps) 5
      \<longleftrightarrow> ''thumbnail-generated-webp'' \<in> link_type ` set (links r)"
    using w by (simp add: included_mask_bits)
  show ?thesis
    by (rule exI [of _ reps], rule exI [of _ n], rule exI [of _ s'],
        rule conjI [OF run conjI [OF c conjI [OF b2 conjI [OF w b5]]]])
qed

text \<open>
  C6 (as amended). When a required role is absent from the retained links, \<open>get_rep\<close>
  raises an Exception whose message is "Required key not found in " followed by the
  \<open>repr\<close> of the retained links, and whose cause is the KeyError that names the role;
  \<open>create_reps\<close> then fails in that way, before any upload, for the first absent role in
  the order submission, cover, thumbnail-generated: this for every row whose links have
  pairwise different types and whose retained links are buildable. When an optional role
  is absent, \<open>get_rep\<close> returns \<open>None\<close> without raising; on every resolvable row, whether
  or not it has the optional roles, \<open>create_reps\<close> returns, and in the set it returns an
  optional slot is \<open>None\<close>, with its mask bit zero, exactly when no link of the row has
  that role. A known role is absent from the retained links exactly when no link of the
  row has it.
\<close>

theorem C6_missing_roles:
  "(map_of ls lt = None \<longrightarrow>
      get_rep ls rbm lt False =
        Inl (Exception [Lit ''Required key not found in '', FmtR (VLinks ls)]
               (Some (KeyError (VStr lt))))
      \<and> get_rep ls rbm lt True = Inr None)
   \<and> (links_of r = Inr ls \<and> lt \<in> set known_link_types \<longrightarrow>
        (map_of ls lt = None \<longleftrightarrow> lt \<notin> link_type ` set (links r)))
   \<and> (links_of r = Inr ls \<and> rep_by_mediaid_of E ls s = (Inr rbm, s1) \<and>
        (map_of ls ''submission'' = None \<or> map_of ls ''cover'' = None
          \<or> map_of ls ''thumbnail-generated'' = None) \<longrightarrow>
        create_reps E r s =
          (Inl (Exception [Lit ''Required key not found in '', FmtR (VLinks ls)]
                  (Some (KeyError (VStr
                     (if map_of ls ''submission'' = None then ''submission''
                      else if map_of ls ''cover'' = None then ''cover''
                      else ''thumbnail-generated''))))), s1)
        \<and> put_calls s1 = put_calls s)
   \<and> (distinct (map link_type (links r))
        \<and> list_all (\<lambda>l. buildable (media.truncate l)) (retained r)
        \<and> \<not> list_all (\<lambda>lt. lt \<in> link_type ` set (links r)) required_link_types \<longrightarrow>
        (\<exists>ls' s2.
           links_of r = Inr ls' \<and> put_calls s2 = put_calls s \<and>
           create_reps E r s =
             (Inl (Exception [Lit ''Required key not found in '', FmtR (VLinks ls')]
                     (Some (KeyError (VStr
                        (if ''submission'' \<notin> link_type ` set (links r) then ''submission''
                         else if ''cover'' \<notin> link_type ` set (links r) then ''cover''
                         else ''thumbnail-generated''))))), s2)))
   \<and> (links_of r = Inr ls \<and> create_reps E r s = (Inr (reps, n), s') \<longrightarrow>
        map_of ls ''submission'' \<noteq> None \<and> map_of ls ''cover'' \<noteq> None
        \<and> map_of ls ''thumbnail-generated'' \<noteq> None
        \<and> (map_of ls ''thumbnail-custom'' = None \<longrightarrow>
              thumbnail_custom reps = None \<and> \<not> bit (included_mask reps) 2)
        \<and> (map_of ls ''thumbnail-generated-webp'' = None \<longrightarrow>
              thumbnail_generated_webp reps = None \<and> \<not> bit (included_mask reps) 5))
   \<and> (resolvable E r \<and> (\<forall>req. put_object_error E req = None) \<longrightarrow>
        (\<exists>reps' n' s3. create_reps E r s = (Inr (reps', n'), s3)
          \<and> (thumbnail_custom reps' = None
                \<longleftrightarrow> ''thumbnail-custom'' \<notin> link_type ` set (links r))
          \<and> (bit (included_mask reps') 2
                \<longleftrightarrow> ''thumbnail-custom'' \<in> link_type ` set (links r))
          \<and> (thumbnail_generated_webp reps' = None
                \<longleftrightarrow> ''thumbnail-generated-webp'' \<notin> link_type ` set (links r))
          \<and> (bit (included_mask reps') 5
                \<longleftrightarrow> ''thumbnail-generated-webp'' \<in> link_type ` set (links r))))"
proof (intro conjI impI)
  assume "map_of ls lt = None"
  then show "get_rep ls rbm lt False =
        Inl (Exception [Lit ''Required key not found in '', FmtR (VLinks ls)]
               (Some (KeyError (VStr lt))))"
    and "get_rep ls rbm lt True = Inr None"
    by (simp_all add: get_rep_def)
next
  assume "links_of r = Inr ls \<and> lt \<in> set known_link_types"
  then show "(map_of ls lt = None) = (lt \<notin> link_type ` set (links r))"
    by (intro links_of_absent_iff) simp_all
next
  assume a: "links_of r = Inr ls \<and> rep_by_mediaid_of E ls s = (Inr rbm, s1) \<and>
        (map_of ls ''submission'' = None \<or> map_of ls ''cover'' = None
          \<or> map_of ls ''thumbnail-generated'' = None)"
  then have ls: "links_of r = Inr ls" and rbm: "rep_by_mediaid_of E ls s = (Inr rbm, s1)"
    and miss: "map_of ls ''submission'' = None \<or> map_of ls ''cover'' = None
          \<or> map_of ls ''thumbnail-generated'' = None"
    by simp_all
  show "create_reps E r s =
          (Inl (Exception [Lit ''Required key not found in '', FmtR (VLinks ls)]
                  (Some (KeyError (VStr
                     (if map_of ls ''submission'' = None then ''submission''
                      else if map_of ls ''cover'' = None then ''cover''
                      else ''thumbnail-generated''))))), s1)"
    by (rule create_reps_first_missing [OF ls rbm miss])
  show "put_calls s1 = put_calls s"
    by (rule rep_by_mediaid_of_Inr(4) [OF rbm])
next
  assume a: "distinct (map link_type (links r))
        \<and> list_all (\<lambda>l. buildable (media.truncate l)) (retained r)
        \<and> \<not> list_all (\<lambda>lt. lt \<in> link_type ` set (links r)) required_link_types"
  then have dist: "distinct (map link_type (links r))"
    and ok: "list_all (\<lambda>l. buildable (media.truncate l)) (retained r)"
    and miss: "''submission'' \<notin> link_type ` set (links r) \<or> ''cover'' \<notin> link_type ` set (links r)
        \<or> ''thumbnail-generated'' \<notin> link_type ` set (links r)"
    by (auto simp: required_link_types_def)
  from links_of_success [OF dist] obtain ls' where ls': "links_of r = Inr ls'" by blast
  from rep_by_mediaid_of_success [OF ls' ok] obtain rbm' s2 where
    rbm': "rep_by_mediaid_of E ls' s = (Inr rbm', s2)" by blast
  have ab: "map_of ls' ''submission'' = None \<longleftrightarrow> ''submission'' \<notin> link_type ` set (links r)"
    "map_of ls' ''cover'' = None \<longleftrightarrow> ''cover'' \<notin> link_type ` set (links r)"
    "map_of ls' ''thumbnail-generated'' = None
       \<longleftrightarrow> ''thumbnail-generated'' \<notin> link_type ` set (links r)"
    by (rule links_of_absent_iff [OF ls'], simp add: known_link_types_def)+
  from miss have miss': "map_of ls' ''submission'' = None \<or> map_of ls' ''cover'' = None
      \<or> map_of ls' ''thumbnail-generated'' = None"
    unfolding ab .
  from create_reps_first_missing [OF ls' rbm' miss'] rep_by_mediaid_of_Inr(4) [OF rbm'] ls'
  show "\<exists>ls' s2.
           links_of r = Inr ls' \<and> put_calls s2 = put_calls s \<and>
           create_reps E r s =
             (Inl (Exception [Lit ''Required key not found in '', FmtR (VLinks ls')]
                     (Some (KeyError (VStr
                        (if ''submission'' \<notin> link_type ` set (links r) then ''submission''
                         else if ''cover'' \<notin> link_type ` set (links r) then ''cover''
                         else ''thumbnail-generated''))))), s2)"
    unfolding ab by (intro exI [of _ ls'] exI [of _ s2]) simp
next
  assume a: "links_of r = Inr ls \<and> create_reps E r s = (Inr (reps, n), s')"
  then have ls: "links_of r = Inr ls" and run: "create_reps E r s = (Inr (reps, n), s')"
    by simp_all
  note o = create_reps_optional [OF ls run]
  from o show "map_of ls ''submission'' \<noteq> None" by simp
  from o show "map_of ls ''cover'' \<noteq> None" by simp
  from o show "map_of ls ''thumbnail-generated'' \<noteq> None" by simp
  from o show "map_of ls ''thumbnail-custom'' = None \<Longrightarrow> thumbnail_custom reps = None" by simp
  from o show "map_of ls ''thumbnail-custom'' = None \<Longrightarrow> \<not> bit (included_mask reps) 2" by simp
  from o show "map_of ls ''thumbnail-generated-webp'' = None \<Longrightarrow>
      thumbnail_generated_webp reps = None" by simp
  from o show "map_of ls ''thumbnail-generated-webp'' = None \<Longrightarrow>
      \<not> bit (included_mask reps) 5" by simp
next
  assume "resolvable E r \<and> (\<forall>req. put_object_error E req = None)"
  then have res: "resolvable E r" and store: "\<forall>req. put_object_error E req = None"
    by simp_all
  show "\<exists>reps' n' s3. create_reps E r s = (Inr (reps', n'), s3)
          \<and> (thumbnail_custom reps' = None
                \<longleftrightarrow> ''thumbnail-custom'' \<notin> link_type ` set (links r))
          \<and> (bit (included_mask reps') 2
                \<longleftrightarrow> ''thumbnail-custom'' \<in> link_type ` set (links r))
          \<and> (thumbnail_generated_webp reps' = None
                \<longleftrightarrow> ''thumbnail-generated-webp'' \<notin> link_type ` set (links r))
          \<and> (bit (included_mask reps') 5
                \<longleftrightarrow> ''thumbnail-generated-webp'' \<in> link_type ` set (links r))"
    by (rule create_reps_optional_absent [OF res store])
qed

lemma ex_empty_row:
  "links_of \<lparr>submitid = 1, links = []\<rparr> = Inr []"
  "rep_by_mediaid_of ex_env [] ex_world = (Inr [], ex_world)"
  by (simp_all add: links_of_def lookup_by_def subdict_def known_link_types_def
      rep_by_mediaid_of_def media_by_mediaid_of_def map_values_def)

theorem C6_missing_roles_witness:
  "get_rep [] [] ''cover'' False =
     Inl (Exception [Lit ''Required key not found in '', FmtR (VLinks [])]
            (Some (KeyError (VStr ''cover''))))
   \<and> get_rep [] [] ''thumbnail-custom'' True = Inr None
   \<and> create_reps ex_env \<lparr>submitid = 1, links = []\<rparr> ex_world =
       (Inl (Exception [Lit ''Required key not found in '', FmtR (VLinks [])]
               (Some (KeyError (VStr ''submission'')))), ex_world)
   \<and> (\<exists>s2. create_reps ex_env
          \<lparr>submitid = 1, links = [ex_link ''submission'' 10 ex_sha1 ''png'' 800 600]\<rparr> ex_world =
        (Inl (Exception [Lit ''Required key not found in '',
                         FmtR (VLinks [(''submission'',
                                        ex_link ''submission'' 10 ex_sha1 ''png'' 800 600)])]
                (Some (KeyError (VStr ''cover'')))), s2))
   \<and> thumbnail_custom ex_reps = None \<and> \<not> bit (included_mask ex_reps) 2
   \<and> (\<exists>reps n s'. create_reps ex_env (ex_row 10 20) ex_world = (Inr (reps, n), s')
         \<and> thumbnail_custom reps = None \<and> thumbnail_generated_webp reps = None
         \<and> \<not> bit (included_mask reps) 2 \<and> \<not> bit (included_mask reps) 5)
   \<and> (map_of (ex_links 10 20) ''thumbnail-custom'' = None
         \<longleftrightarrow> ''thumbnail-custom'' \<notin> link_type ` set (links (ex_row 10 20)))"
proof -
  have n: "map_of ([] :: (string \<times> link) list) lt = None" for lt by simp
  from C6_missing_roles [where ls = "[]" and lt = "''cover''" and rbm = "[]"] n
  have a: "get_rep [] [] ''cover'' False =
     Inl (Exception [Lit ''Required key not found in '', FmtR (VLinks [])]
            (Some (KeyError (VStr ''cover''))))"
    by simp
  from C6_missing_roles [where ls = "[]" and lt = "''thumbnail-custom''" and rbm = "[]"] n
  have b: "get_rep [] [] ''thumbnail-custom'' True = Inr None"
    by simp
  from C6_missing_roles [where ls = "[]" and r = "\<lparr>submitid = 1, links = []\<rparr>"
      and E = ex_env and s = ex_world and rbm = "[]" and ?s1.0 = ex_world] ex_empty_row
  have c: "create_reps ex_env \<lparr>submitid = 1, links = []\<rparr> ex_world =
       (Inl (Exception [Lit ''Required key not found in '', FmtR (VLinks [])]
               (Some (KeyError (VStr ''submission'')))), ex_world)"
    by simp
  let ?r = "\<lparr>submitid = 1, links = [ex_link ''submission'' 10 ex_sha1 ''png'' 800 600]\<rparr>"
  have l: "links_of ?r = Inr [(''submission'', ex_link ''submission'' 10 ex_sha1 ''png'' 800 600)]"
    by (simp add: links_of_def lookup_by_def subdict_def known_link_types_def ex_link_def Let_def)
  have pre: "distinct (map link_type (links ?r))
        \<and> list_all (\<lambda>l. buildable (media.truncate l)) (retained ?r)
        \<and> \<not> list_all (\<lambda>lt. lt \<in> link_type ` set (links ?r)) required_link_types"
    by (simp add: retained_def known_link_types_def required_link_types_def ex_link_def
        media.truncate_def ex_transferable)
  have ty: "''submission'' \<in> link_type ` set (links ?r)" "''cover'' \<notin> link_type ` set (links ?r)"
    by (simp_all add: ex_link_def)
  note t4 = C6_missing_roles [where r = ?r and E = ex_env and s = ex_world,
      THEN conjunct2, THEN conjunct2, THEN conjunct2, THEN conjunct1, THEN mp, OF pre]
  from t4 obtain ls' s2 where "links_of ?r = Inr ls'"
    "create_reps ex_env ?r ex_world =
             (Inl (Exception [Lit ''Required key not found in '', FmtR (VLinks ls')]
                     (Some (KeyError (VStr
                        (if ''submission'' \<notin> link_type ` set (links ?r) then ''submission''
                         else if ''cover'' \<notin> link_type ` set (links ?r) then ''cover''
                         else ''thumbnail-generated''))))), s2)"
    by iprover
  with l ty have d: "\<exists>s2. create_reps ex_env ?r ex_world =
        (Inl (Exception [Lit ''Required key not found in '',
                         FmtR (VLinks [(''submission'',
                                        ex_link ''submission'' 10 ex_sha1 ''png'' 800 600)])]
                (Some (KeyError (VStr ''cover'')))), s2)"
    by (intro exI [of _ s2]) simp
  have run: "create_reps ex_env (ex_row 10 20) ex_world
     = (Inr (ex_reps, 2), \<lparr>entropy_used = 32, objects_made = 2, put_calls = [ex_put1, ex_put2]\<rparr>)"
    by (rule ex_create_reps) simp
  have tc: "map_of (ex_links 10 20) ''thumbnail-custom'' = None"
    by (simp add: ex_links_def)
  note t5 = C6_missing_roles [where ls = "ex_links 10 20" and r = "ex_row 10 20"
      and E = ex_env and s = ex_world and reps = ex_reps and n = 2
      and s' = "\<lparr>entropy_used = 32, objects_made = 2, put_calls = [ex_put1, ex_put2]\<rparr>",
      THEN conjunct2, THEN conjunct2, THEN conjunct2, THEN conjunct2, THEN conjunct1,
      THEN mp, OF conjI [OF ex_links_of [of 10 20] run]]
  from t5 tc have e: "thumbnail_custom ex_reps = None \<and> \<not> bit (included_mask ex_reps) 2"
    by simp
  have store: "\<forall>req. put_object_error ex_env req = None"
    by (simp add: ex_files)
  have absent: "''thumbnail-custom'' \<notin> link_type ` set (links (ex_row 10 20))"
    "''thumbnail-generated-webp'' \<notin> link_type ` set (links (ex_row 10 20))"
    by (simp_all add: ex_row_def ex_link_def)
  note t6 = C6_missing_roles [where r = "ex_row 10 20" and E = ex_env and s = ex_world,
      THEN conjunct2, THEN conjunct2, THEN conjunct2, THEN conjunct2, THEN conjunct2,
      THEN mp, OF conjI [OF ex_resolvable(2) store]]
  from t6 obtain reps' n' s3 where
    "create_reps ex_env (ex_row 10 20) ex_world = (Inr (reps', n'), s3)"
    "thumbnail_custom reps' = None
       \<longleftrightarrow> ''thumbnail-custom'' \<notin> link_type ` set (links (ex_row 10 20))"
    "bit (included_mask reps') 2
       \<longleftrightarrow> ''thumbnail-custom'' \<in> link_type ` set (links (ex_row 10 20))"
    "thumbnail_generated_webp reps' = None
       \<longleftrightarrow> ''thumbnail-generated-webp'' \<notin> link_type ` set (links (ex_row 10 20))"
    "bit (included_mask reps') 5
       \<longleftrightarrow> ''thumbnail-generated-webp'' \<in> link_type ` set (links (ex_row 10 20))"
    by (elim exE conjE) (rule that)
  with absent have f: "\<exists>reps n s'. create_reps ex_env (ex_row 10 20) ex_world = (Inr (reps, n), s')
         \<and> thumbnail_custom reps = None \<and> thumbnail_generated_webp reps = None
         \<and> \<not> bit (included_mask reps) 2 \<and> \<not> bit (included_mask reps) 5"
    by (intro exI [of _ reps'] exI [of _ n'] exI [of _ s3]) simp
  have known: "''thumbnail-custom'' \<in> set known_link_types"
    by (simp add: known_link_types_def)
  note g = C6_missing_roles [where ls = "ex_links 10 20" and r = "ex_row 10 20"
      and lt = "''thumbnail-custom''", THEN conjunct2, THEN conjunct1, THEN mp,
      OF conjI [OF ex_links_of [of 10 20] known]]
  show ?thesis
    by (rule conjI [OF a conjI [OF b conjI [OF c conjI [OF d
          conjI [OF conjunct1 [OF e] conjI [OF conjunct2 [OF e] conjI [OF f g]]]]]]])
qed

text \<open>
  The claim fails for the message: with no links at all the required role submission is
  absent, and the message raised is "Required key not found in {}", which does not name
  it; the role is named only by the cause. With the submission link alone, the message
  lists that link and does not mention the absent cover.
\<close>

theorem C6_message_counterexample:
  "create_reps ex_env \<lparr>submitid = 1, links = []\<rparr> ex_world =
       (Inl (Exception [Lit ''Required key not found in '', FmtR (VLinks [])]
               (Some (KeyError (VStr ''submission'')))), ex_world)
   \<and> render [Lit ''Required key not found in '', FmtR (VLinks [])]
       = ''Required key not found in {}''
   \<and> \<not> sublist ''submission'' (render [Lit ''Required key not found in '', FmtR (VLinks [])])
   \<and> fst (create_reps ex_env
            \<lparr>submitid = 1, links = [ex_link ''submission'' 10 ex_sha1 ''png'' 800 600]\<rparr> ex_world)
       = Inl (Exception [Lit ''Required key not found in '',
                         FmtR (VLinks [(''submission'',
                                        ex_link ''submission'' 10 ex_sha1 ''png'' 800 600)])]
                (Some (KeyError (VStr ''cover''))))
   \<and> \<not> sublist ''cover''
         (render [Lit ''Required key not found in '',
                  FmtR (VLinks [(''submission'',
                                 ex_link ''submission'' 10 ex_sha1 ''png'' 800 600)])])"
proof -
  have a: "create_reps ex_env \<lparr>submitid = 1, links = []\<rparr> ex_world =
       (Inl (Exception [Lit ''Required key not found in '', FmtR (VLinks [])]
               (Some (KeyError (VStr ''submission'')))), ex_world)"
    by (simp add: create_reps_def ex_empty_row build_reps_def get_rep_def)
  have b: "render [Lit ''Required key not found in '', FmtR (VLinks [])]
       = ''Required key not found in {}''"
    by (simp add: render_def py_repr_dict_def)
  have c: "\<not> sublist ''submission'' (render [Lit ''Required key not found in '', FmtR (VLinks [])])"
    unfolding b by (simp add: sublist_Cons_right)
  have l: "links_of \<lparr>submitid = 1, links = [ex_link ''submission'' 10 ex_sha1 ''png'' 800 600]\<rparr>
      = Inr [(''submission'', ex_link ''submission'' 10 ex_sha1 ''png'' 800 600)]"
    by (simp add: links_of_def lookup_by_def subdict_def known_link_types_def ex_link_def Let_def)
  have m: "rep_by_mediaid_of ex_env
      [(''submission'', ex_link ''submission'' 10 ex_sha1 ''png'' 800 600)] ex_world
      = (Inr [(10, ex_rep1)], \<lparr>entropy_used = 16, objects_made = 1, put_calls = []\<rparr>)"
    by (simp add: rep_by_mediaid_of_def media_by_mediaid_of_def map_values_def
        rep_from_media_def subscript_def IMAGE_CONTENT_TYPES_def token_bytes_def
        FILE_KEY_LENGTH_def ex_env_def ex_world_def ImageRepresentation_init_def ex_rep1_def
        ex_random ex_link_def media.truncate_def)
  have g: "build_reps [(''submission'', ex_link ''submission'' 10 ex_sha1 ''png'' 800 600)]
      [(10, ex_rep1)]
      = Inl (Exception [Lit ''Required key not found in '',
                         FmtR (VLinks [(''submission'',
                                        ex_link ''submission'' 10 ex_sha1 ''png'' 800 600)])]
                (Some (KeyError (VStr ''cover''))))"
    by (simp add: build_reps_def get_rep_def subscript_def ex_link_def)
  have d: "fst (create_reps ex_env
            \<lparr>submitid = 1, links = [ex_link ''submission'' 10 ex_sha1 ''png'' 800 600]\<rparr> ex_world)
       = Inl (Exception [Lit ''Required key not found in '',
                         FmtR (VLinks [(''submission'',
                                        ex_link ''submission'' 10 ex_sha1 ''png'' 800 600)])]
                (Some (KeyError (VStr ''cover''))))"
    by (simp add: create_reps_def l m g)
  have e: "\<not> sublist ''cover''
         (render [Lit ''Required key not found in '',
                  FmtR (VLinks [(''submission'',
                                 ex_link ''submission'' 10 ex_sha1 ''png'' 800 600)])])"
    by (simp add: render_def py_repr_dict_def py_repr_link_def py_repr_str_def quoted_def
        quote_for_def escaped_def py_str_int_def digits.simps char_of_def bit_Suc_0_iff
        ex_link_def ex_sha1_def Let_def sublist_Cons_right)
  show ?thesis
    by (rule conjI [OF a conjI [OF b conjI [OF c conjI [OF d e]]]])
qed

text \<open>
  C7 (as amended). On success \<open>create_reps\<close> returns a pair: the set built from the
  resolved roles and the number of distinct media ids among the retained links. The
  mapping from media id to representation is a local that drives the uploads; it is not
  part of the result.
\<close>

theorem C7_returns_pair:
  assumes "create_reps E r s = (Inr res, s')"
  shows "\<exists>ls rbm s1 reps.
      links_of r = Inr ls \<and> rep_by_mediaid_of E ls s = (Inr rbm, s1) \<and>
      build_reps ls rbm = Inr reps \<and>
      res = (reps, int (length rbm)) \<and>
      snd res = int (card (mediaid ` snd ` set ls)) \<and>
      fst ` set rbm = mediaid ` snd ` set ls"
proof -
  from create_reps_Inr [OF assms] obtain ls rbm s1 reps where
    ls: "links_of r = Inr ls" and rbm: "rep_by_mediaid_of E ls s = (Inr rbm, s1)"
    and reps: "build_reps ls rbm = Inr reps" and res: "res = (reps, int (length rbm))"
    by auto
  note p = rep_by_mediaid_of_Inr [OF rbm]
  from res p(6) have "snd res = int (card (mediaid ` snd ` set ls))" by simp
  with ls rbm reps res p(8) show ?thesis by blast
qed

theorem C7_returns_pair_witness:
  "create_reps ex_env (ex_row 10 20) ex_world
     = (Inr (ex_reps, 2), \<lparr>entropy_used = 32, objects_made = 2, put_calls = [ex_put1, ex_put2]\<rparr>)
   \<and> (\<exists>ls. links_of (ex_row 10 20) = Inr ls
         \<and> snd (ex_reps, 2 :: int) = int (card (mediaid ` snd ` set ls)))"
proof -
  have run: "create_reps ex_env (ex_row 10 20) ex_world
     = (Inr (ex_reps, 2), \<lparr>entropy_used = 32, objects_made = 2, put_calls = [ex_put1, ex_put2]\<rparr>)"
    by (rule ex_create_reps) simp
  from C7_returns_pair [OF run]
  obtain ls where "links_of (ex_row 10 20) = Inr ls"
    "snd (ex_reps, 2 :: int) = int (card (mediaid ` snd ` set ls))"
    by blast
  then have c: "\<exists>ls. links_of (ex_row 10 20) = Inr ls
         \<and> snd (ex_reps, 2 :: int) = int (card (mediaid ` snd ` set ls))"
    by blast
  show ?thesis by (rule conjI [OF run c])
qed

text \<open>
  The claim's third component is not returned: two rows that differ only in their media
  ids return the same value (and leave the same world), while their mappings from media
  id to representation differ.
\<close>

theorem C7_mapping_not_returned_counterexample:
  "create_reps ex_env (ex_row 10 20) ex_world = create_reps ex_env (ex_row 11 21) ex_world
   \<and> links_of (ex_row 10 20) = Inr (ex_links 10 20)
   \<and> links_of (ex_row 11 21) = Inr (ex_links 11 21)
   \<and> fst (rep_by_mediaid_of ex_env (ex_links 10 20) ex_world) = Inr [(10, ex_rep1), (20, ex_rep2)]
   \<and> fst (rep_by_mediaid_of ex_env (ex_links 11 21) ex_world) = Inr [(11, ex_rep1), (21, ex_rep2)]
   \<and> fst (rep_by_mediaid_of ex_env (ex_links 10 20) ex_world)
       \<noteq> fst (rep_by_mediaid_of ex_env (ex_links 11 21) ex_world)"
  by (simp add: ex_create_reps ex_links_of ex_rep_by_mediaid)

end
